theory Spec2Isabelle
  imports Complex_Main
begin

section \<open>SAASH: neighbour grid, bond groups and cluster records\<close>

text \<open>
  A shallow embedding of \<^verbatim>\<open>SAASH/util/neighborgrid.py\<close> (class \<^verbatim>\<open>Neighborgrid\<close>) and of
  \<^verbatim>\<open>src/body/cluster.py\<close> (classes \<^verbatim>\<open>ClusterInfo\<close>, \<^verbatim>\<open>Observer\<close>, function
  \<^verbatim>\<open>get_groups\<close>).

  Conventions of the embedding.
  \<^item> A Python float is the real number it denotes. The arithmetic of the grid rounds each
    exact result to the nearest double, ties to even (\<open>round_double\<close>, with the subnormal
    range); the sign of a zero is not modelled. The IEEE special values that numpy
    produces instead of raising (division by zero gives an infinity or a NaN, with a
    warning only) are kept apart in the type \<open>npfloat\<close>. The distances of the bodies,
    which the sources do not contain, are exact.
  \<^item> numpy's \<^verbatim>\<open>int\<close> is the 64-bit signed integer of 64-bit Linux. Storing a float into one
    element of an integer array converts it as Python's \<^verbatim>\<open>int\<close> does and raises
    \<^verbatim>\<open>OverflowError\<close> for an infinity or a value that does not fit and \<^verbatim>\<open>ValueError\<close> for a
    NaN; \<^verbatim>\<open>astype(int)\<close> on an array never raises and yields the least 64-bit integer for
    such values (the x86-64 conversion).
  \<^item> A raised exception is a value \<open>Inl e\<close> of a sum type; a method that mutates its object
    returns the new object.
  \<^item> An attribute \<^verbatim>\<open>self.x\<close> of the grid is the record field \<open>ng_x\<close>, a private attribute
    \<^verbatim>\<open>self.__x\<close> of a cluster record is the field \<open>ci_x\<close>.
\<close>

subsection \<open>Python and numpy primitives\<close>

datatype py_error =
    ValueError string
  | IndexError
  | KeyError
  | TypeError
  | OverflowError

datatype npfloat = Fin real | PInf | NInf | NaN

text \<open>
  Rounding of a real number to the nearest IEEE double (binary64), ties to even. The unit
  in the last place is \<open>2 ^ (e - 52)\<close> for a number with \<open>2 ^ e \<le> |x| < 2 ^ (e + 1)\<close>, and
  \<open>2 ^ (-1074)\<close> below \<open>2 ^ (-1022)\<close>. \<open>bit_length n\<close> is the number of binary digits of \<open>n\<close>,
  from which \<open>float_exponent\<close> computes \<open>e\<close>. A result of \<open>2 ^ 1024\<close> or more stands for an
  overflow to infinity.
\<close>

fun bit_length :: "nat \<Rightarrow> nat" where
  "bit_length n = (if n = 0 then 0 else Suc (bit_length (n div 2)))"

declare bit_length.simps [simp del]

definition float_exponent :: "real \<Rightarrow> int" where
  "float_exponent x =
     (if 1 \<le> \<bar>x\<bar> then int (bit_length (nat \<lfloor>\<bar>x\<bar>\<rfloor>)) - 1
      else - int (bit_length (nat \<lceil>1 / \<bar>x\<bar>\<rceil> - 1)))"

definition pow2 :: "int \<Rightarrow> real" where
  "pow2 k = (if 0 \<le> k then 2 ^ nat k else 1 / 2 ^ nat (- k))"

definition round_half_even :: "real \<Rightarrow> int" where
  "round_half_even x =
     (let n = \<lfloor>x\<rfloor>; r = x - of_int n
      in if r < 1 / 2 then n else if 1 / 2 < r then n + 1 else if even n then n else n + 1)"

definition round_double :: "real \<Rightarrow> real" where
  "round_double x =
     (if x = 0 then 0
      else let u = pow2 (max (float_exponent x) (- 1022) - 52)
           in of_int (round_half_even (x / u)) * u)"

text \<open>
  numpy true division of a finite number by a float: the rounded quotient. A zero
  divisor gives an infinity with the sign of the dividend, or NaN for \<open>0 / 0\<close>.
\<close>

fun np_divide :: "real \<Rightarrow> npfloat \<Rightarrow> npfloat" where
  "np_divide x (Fin y) =
     (if y \<noteq> 0 then Fin (round_double (x / y))
      else if x = 0 then NaN else if 0 < x then PInf else NInf)"
| "np_divide x PInf = Fin 0"
| "np_divide x NInf = Fin 0"
| "np_divide x NaN = NaN"

fun np_floor :: "npfloat \<Rightarrow> npfloat" where
  "np_floor (Fin x) = Fin (of_int \<lfloor>x\<rfloor>)"
| "np_floor v = v"

definition int64_min :: int where
  "int64_min = - (2 ^ 63)"

definition truncate_real :: "real \<Rightarrow> int" where
  "truncate_real x = (if 0 \<le> x then \<lfloor>x\<rfloor> else \<lceil>x\<rceil>)"

text \<open>
  \<^verbatim>\<open>a[i] = v\<close> for an int64 array \<open>a\<close> and a float \<open>v\<close>: the value truncated toward zero when
  it fits, an exception otherwise.
\<close>

definition np_store_int64 :: "npfloat \<Rightarrow> py_error + int" where
  "np_store_int64 v =
     (case v of
        Fin x \<Rightarrow>
          (let t = truncate_real x in
           if int64_min \<le> t \<and> t < 2 ^ 63 then Inr t else Inl OverflowError)
      | PInf \<Rightarrow> Inl OverflowError
      | NInf \<Rightarrow> Inl OverflowError
      | NaN \<Rightarrow> Inl (ValueError ''cannot convert float NaN to integer''))"

text \<open>
  \<^verbatim>\<open>astype(int)\<close>, the conversion of a float array to int64: truncation toward zero when the
  value fits.
\<close>

fun np_to_int64 :: "npfloat \<Rightarrow> int" where
  "np_to_int64 (Fin x) =
     (let t = truncate_real x in if int64_min \<le> t \<and> t < 2 ^ 63 then t else int64_min)"
| "np_to_int64 v = int64_min"

definition wrap64 :: "int \<Rightarrow> int" where
  "wrap64 x = (x + 2 ^ 63) mod 2 ^ 64 - 2 ^ 63"

text \<open>
  numpy's integer remainder: the sign follows the divisor (as HOL's \<open>mod\<close> on \<open>int\<close>), and
  a zero divisor gives 0 with a warning.
\<close>

definition np_mod :: "int \<Rightarrow> int \<Rightarrow> int" where
  "np_mod a n = (if n = 0 then 0 else a mod n)"

text \<open>
  Element-wise pairing of two one-dimensional arrays under numpy broadcasting: equal
  lengths pair up, an array of length 1 is repeated, anything else is an error.
\<close>

definition np_zip :: "'a list \<Rightarrow> 'b list \<Rightarrow> ('a \<times> 'b) list option" where
  "np_zip xs ys =
     (if length xs = length ys then Some (zip xs ys)
      else if length xs = 1 then Some (map (Pair (hd xs)) ys)
      else if length ys = 1 then Some (map (\<lambda>x. (x, hd ys)) xs)
      else None)"

definition np_ge :: "npfloat \<Rightarrow> real \<Rightarrow> bool" where
  "np_ge v r = (case v of Fin x \<Rightarrow> r \<le> x | PInf \<Rightarrow> True | NInf \<Rightarrow> False | NaN \<Rightarrow> False)"

subsection \<open>Bodies\<close>

text \<open>
  Modelled from the spec: the class \<^verbatim>\<open>Body\<close> (\<^verbatim>\<open>body/body.py\<close>) is not among the sources.
  The spec gives a body a unique integer id and a position, and a periodic-aware distance
  to another body by the minimum-image convention over the domain size. Two body objects
  are the same object exactly when their ids agree.
\<close>

record body =
  body_id :: int
  body_position :: "real list"

text \<open>Modelled from the spec: \<^verbatim>\<open>Body.get_position\<close>, the position of the body.\<close>

definition get_position :: "body \<Rightarrow> real list" where
  "get_position b = body_position b"

text \<open>
  Modelled from the spec: the minimum-image convention on one axis, the shorter of the
  direct displacement and the one across the wrap boundary of a domain of size \<open>d\<close>.
\<close>

definition minimum_image :: "real \<Rightarrow> real \<Rightarrow> real \<Rightarrow> real" where
  "minimum_image x y d = (let a = \<bar>x - y\<bar> in if d / 2 < a then d - a else a)"

text \<open>
  Modelled from the spec: \<^verbatim>\<open>Body.distance_to_body(other, domain_size)\<close>, the Euclidean length
  of the minimum-image displacement; \<open>distance_sq\<close> is its square.
\<close>

definition distance_sq :: "body \<Rightarrow> body \<Rightarrow> real list \<Rightarrow> real" where
  "distance_sq a b domain_size =
     (\<Sum>((x, y), d) \<leftarrow> zip (zip (body_position a) (body_position b)) domain_size.
        (minimum_image x y d)\<^sup>2)"

definition distance_to_body :: "body \<Rightarrow> body \<Rightarrow> real list \<Rightarrow> real" where
  "distance_to_body a b domain_size = sqrt (distance_sq a b domain_size)"

subsection \<open>Neighborgrid\<close>

record neighborgrid =
  ng_lim :: "(real \<times> real) list"
  ng_domain_size :: "real list"
  ng_periodic :: "bool list"
  ng_R :: real
  ng_dim :: nat
  ng_numD :: "int list"
  ng_boxSize :: "npfloat list"
  ng_map :: "int list \<rightharpoonup> body list"
  ng_shift :: "real list"
  ng_indexAdjustment :: "int list list"

text \<open>
  \<^verbatim>\<open>__init__\<close>. \<^verbatim>\<open>np.array(lim)\<close> of an empty list has one axis only, so \<^verbatim>\<open>self.lim[:,1]\<close>
  raises \<^verbatim>\<open>IndexError\<close>. The domain sizes are the rounded differences of the limits.

  \<open>axis_numD\<close> is the statement \<^verbatim>\<open>self.numD[i] = np.floor(self.domain_size[i] / (self.R/2))\<close>
  for one axis: the store into the integer array raises when the floored quotient is not
  finite or does not fit. A domain size that has overflowed is an infinity in the code, and
  so is its quotient. \<open>axis_boxSize\<close> is \<^verbatim>\<open>self.domain_size[i] / self.numD[i]\<close>, where the
  cell count is converted to a double first. \<open>init_loop\<close> is the loop over the axes, which
  the first exception ends.
\<close>

definition axis_numD :: "real \<Rightarrow> real \<Rightarrow> py_error + int" where
  "axis_numD R d =
     (if 2 ^ 1024 \<le> \<bar>d\<bar> then Inl OverflowError
      else np_store_int64 (np_floor (np_divide d (Fin (round_double (R / 2))))))"

definition axis_boxSize :: "real \<Rightarrow> int \<Rightarrow> npfloat" where
  "axis_boxSize d numD = np_divide d (Fin (round_double (of_int numD)))"

fun init_loop :: "real \<Rightarrow> real list \<Rightarrow> py_error + int list \<times> npfloat list" where
  "init_loop R [] = Inr ([], [])"
| "init_loop R (d # domain_size) =
     (case axis_numD R d of
        Inl e \<Rightarrow> Inl e
      | Inr n \<Rightarrow>
          (case init_loop R domain_size of
             Inl e \<Rightarrow> Inl e
           | Inr (numD, boxSize) \<Rightarrow> Inr (n # numD, axis_boxSize d n # boxSize)))"

definition Neighborgrid_init ::
  "(real \<times> real) list \<Rightarrow> real \<Rightarrow> bool list \<Rightarrow> py_error + neighborgrid" where
  "Neighborgrid_init lims R periodic =
     (if lims = [] then Inl IndexError
      else
        let domain_size = map (\<lambda>(lo, hi). round_double (hi - lo)) lims;
            dim = length lims
        in case init_loop R domain_size of
             Inl e \<Rightarrow> Inl e
           | Inr (numD, boxSize) \<Rightarrow>
               Inr \<lparr> ng_lim = lims,
                     ng_domain_size = domain_size,
                     ng_periodic = periodic,
                     ng_R = R,
                     ng_dim = dim,
                     ng_numD = numD,
                     ng_boxSize = boxSize,
                     ng_map = Map.empty,
                     ng_shift = map (\<lambda>(lo, hi). - lo) lims,
                     ng_indexAdjustment = product_lists (replicate dim [-2, -1, 0, 1, 2]) \<rparr>)"

text \<open>
  \<^verbatim>\<open>convertPosToIndex\<close>: the first \<open>dim\<close> coordinates of the position, the bounds test on
  every axis, then the cell index \<^verbatim>\<open>((position + shift) / boxSize).astype(int)\<close>.
\<close>

definition convertPosToIndex :: "neighborgrid \<Rightarrow> body \<Rightarrow> py_error + int list" where
  "convertPosToIndex g b =
     (let position = take (ng_dim g) (get_position b) in
      case np_zip position (ng_lim g) of
        None \<Rightarrow> Inl (ValueError ''operands could not be broadcast together'')
      | Some pl \<Rightarrow>
          if (\<exists>(p, (lo, hi)) \<in> set pl. p < lo) \<or> (\<exists>(p, (lo, hi)) \<in> set pl. hi < p)
          then Inl (ValueError ''Particle is outside the set bounds'')
          else
            (case np_zip position (zip (ng_shift g) (ng_boxSize g)) of
               None \<Rightarrow> Inl (ValueError ''operands could not be broadcast together'')
             | Some ps \<Rightarrow>
                 Inr (map (\<lambda>(p, (s, bs)). np_to_int64 (np_divide (round_double (p + s)) bs)) ps)))"

definition addItemToMap :: "neighborgrid \<Rightarrow> int list \<Rightarrow> body \<Rightarrow> neighborgrid" where
  "addItemToMap g key v =
     (case ng_map g key of
        Some vs \<Rightarrow> g\<lparr>ng_map := (ng_map g)(key \<mapsto> vs @ [v])\<rparr>
      | None \<Rightarrow> g\<lparr>ng_map := (ng_map g)(key \<mapsto> [v])\<rparr>)"

text \<open>
  \<^verbatim>\<open>update\<close> returns the grid as the call leaves it, with the exception that ended the
  call, if any: the map is cleared first, and a body whose index cannot be computed ends
  the loop.
\<close>

fun update_loop :: "neighborgrid \<Rightarrow> body list \<Rightarrow> py_error option \<times> neighborgrid" where
  "update_loop g [] = (None, g)"
| "update_loop g (b # bodies) =
     (case convertPosToIndex g b of
        Inl e \<Rightarrow> (Some e, g)
      | Inr key \<Rightarrow> update_loop (addItemToMap g key b) bodies)"

definition update :: "neighborgrid \<Rightarrow> body list \<Rightarrow> py_error option \<times> neighborgrid" where
  "update g bodies = update_loop (g\<lparr>ng_map := Map.empty\<rparr>) bodies"

text \<open>
  \<^verbatim>\<open>AdjacentBoxes\<close>: each adjustment is added to the centre box axis by axis (int64
  addition) and wrapped with \<^verbatim>\<open>% numD[i]\<close>; \<^verbatim>\<open>centerBox[i]\<close> for an axis the centre box does
  not have raises \<^verbatim>\<open>IndexError\<close>.
\<close>

definition neighborBox :: "neighborgrid \<Rightarrow> int list \<Rightarrow> int list \<Rightarrow> int list" where
  "neighborBox g centerBox boxAdjustment =
     map (\<lambda>i. np_mod (wrap64 (centerBox ! i + boxAdjustment ! i)) (ng_numD g ! i))
       [0 ..< ng_dim g]"

definition AdjacentBoxes :: "neighborgrid \<Rightarrow> int list \<Rightarrow> py_error + int list list" where
  "AdjacentBoxes g centerBox =
     (if ng_indexAdjustment g \<noteq> [] \<and> length centerBox < ng_dim g then Inl IndexError
      else Inr (map (neighborBox g centerBox) (ng_indexAdjustment g)))"

text \<open>
  \<^verbatim>\<open>getNeighborhood\<close>: the bodies of the adjacent boxes, in the order of the boxes, that
  are not the body itself and lie closer than \<open>R\<close>.
\<close>

definition box_neighbors :: "neighborgrid \<Rightarrow> body \<Rightarrow> int list \<Rightarrow> body list" where
  "box_neighbors g b box =
     (case ng_map g box of
        None \<Rightarrow> []
      | Some bodies \<Rightarrow>
          filter (\<lambda>body_j. body_id b \<noteq> body_id body_j \<and>
                    distance_to_body body_j b (ng_domain_size g) < ng_R g) bodies)"

definition getNeighborhood :: "neighborgrid \<Rightarrow> body \<Rightarrow> py_error + body list" where
  "getNeighborhood g b =
     (case convertPosToIndex g b of
        Inl e \<Rightarrow> Inl e
      | Inr centerBox \<Rightarrow>
          (case AdjacentBoxes g centerBox of
             Inl e \<Rightarrow> Inl e
           | Inr boxes \<Rightarrow> Inr (concat (map (box_neighbors g b) boxes))))"

text \<open>The all-pairs scan the grid is meant to replace.\<close>

definition brute_force_neighbors :: "neighborgrid \<Rightarrow> body list \<Rightarrow> body \<Rightarrow> body list" where
  "brute_force_neighbors g bodies b =
     filter (\<lambda>body_j. body_id b \<noteq> body_id body_j \<and>
               distance_to_body body_j b (ng_domain_size g) < ng_R g) bodies"


subsection \<open>Clusters, observers and cluster records\<close>

text \<open>
  Of the class \<^verbatim>\<open>Cluster\<close> the cluster records read the member bodies only
  (\<^verbatim>\<open>get_bodies\<close>, \<^verbatim>\<open>get_body_positions\<close>).
\<close>

record cluster =
  cl_bodies :: "body list"
  cl_cluster_index :: int
  cl_last_updated :: int

definition Cluster_init :: "body list \<Rightarrow> int \<Rightarrow> cluster" where
  "Cluster_init bodies frame_num =
     \<lparr> cl_bodies = bodies, cl_cluster_index = - 1, cl_last_updated = frame_num \<rparr>"

definition get_bodies :: "cluster \<Rightarrow> body list" where
  "get_bodies c = cl_bodies c"

definition get_body_positions :: "cluster \<Rightarrow> real list list" where
  "get_body_positions c = map get_position (cl_bodies c)"

text \<open>
  The observer holds a Python set of observable names; the list is that set in the order
  in which a \<^verbatim>\<open>for\<close> loop visits it. Python does not fix where a new name lands in that
  order; \<open>add_observable\<close> puts it last, and no property below depends on the order.
\<close>

record observer =
  ob_outfile :: string
  ob_observable_set :: "string list"
  ob_current_monomer :: real
  ob_previous_monomer :: real

definition Observer_init :: observer where
  "Observer_init =
     \<lparr> ob_outfile = ''test_out.py'', ob_observable_set = [],
       ob_current_monomer = - 1, ob_previous_monomer = - 1 \<rparr>"

definition add_observable :: "observer \<Rightarrow> string \<Rightarrow> observer" where
  "add_observable ob observable =
     (if observable \<in> set (ob_observable_set ob) then ob
      else ob\<lparr>ob_observable_set := ob_observable_set ob @ [observable]\<rparr>)"

definition get_observables :: "observer \<Rightarrow> string list" where
  "get_observables ob = ob_observable_set ob"

definition init_test_set :: "observer \<Rightarrow> observer" where
  "init_test_set ob = ob\<lparr>ob_observable_set := [''positions'']\<rparr>"

text \<open>A property dictionary: keys in insertion order, a stored key is overwritten in place.\<close>

datatype py_value = IntVal int | FloatVal real | PositionsVal "real list list"

type_synonym property_dict = "(string \<times> py_value) list"

fun dict_set :: "string \<Rightarrow> py_value \<Rightarrow> property_dict \<Rightarrow> property_dict" where
  "dict_set k v [] = [(k, v)]"
| "dict_set k v ((k', v') # d) = (if k' = k then (k, v) # d else (k', v') # dict_set k v d)"

record cluster_info =
  ci_birth_frame :: int
  ci_death_frame :: int
  ci_last_updated :: int
  ci_lifetime :: int
  ci_is_dead :: bool
  ci_has_parent :: bool
  ci_observer :: observer
  ci_stored_data :: "property_dict list"
  ci_from_monomer :: "(property_dict \<times> int) list"
  ci_to_monomer :: "(property_dict \<times> int) list"

text \<open>
  \<^verbatim>\<open>__compute_coordinate\<close>. The last branch is \<^verbatim>\<open>raise("...")\<close>: raising a string is itself
  an error, \<^verbatim>\<open>TypeError: exceptions must derive from BaseException\<close>.
\<close>

fun compute_loop :: "cluster \<Rightarrow> string list \<Rightarrow> property_dict \<Rightarrow> py_error + property_dict" where
  "compute_loop c [] property_dict = Inr property_dict"
| "compute_loop c (obs # observables) property_dict =
     (if obs = ''num_bodies''
      then compute_loop c observables
             (dict_set ''num_bodies'' (IntVal (int (length (get_bodies c)))) property_dict)
      else if obs = ''positions''
      then compute_loop c observables
             (dict_set ''positions'' (PositionsVal (get_body_positions c)) property_dict)
      else Inl TypeError)"

definition compute_coordinate :: "cluster_info \<Rightarrow> cluster \<Rightarrow> py_error + property_dict" where
  "compute_coordinate ci c = compute_loop c (get_observables (ci_observer ci)) []"

definition update_data ::
  "cluster_info \<Rightarrow> cluster \<Rightarrow> int \<Rightarrow> real \<Rightarrow> py_error + cluster_info" where
  "update_data ci c frame_num monomer_frac =
     (if ci_last_updated ci < frame_num \<and> \<not> ci_is_dead ci then
        (case compute_coordinate ci c of
           Inl e \<Rightarrow> Inl e
         | Inr d \<Rightarrow>
             Inr (ci\<lparr> ci_stored_data :=
                         ci_stored_data ci @ [dict_set ''monomer_fraction'' (FloatVal monomer_frac) d],
                       ci_last_updated := frame_num \<rparr>))
      else Inr ci)"

definition ClusterInfo_init ::
  "cluster \<Rightarrow> int \<Rightarrow> real \<Rightarrow> observer \<Rightarrow> py_error + cluster_info" where
  "ClusterInfo_init c frame_num monomer_frac ob =
     (case update_data
             \<lparr> ci_birth_frame = frame_num, ci_death_frame = - 1, ci_last_updated = - 1,
               ci_lifetime = - 1, ci_is_dead = False, ci_has_parent = False,
               ci_observer = ob, ci_stored_data = [],
               ci_from_monomer = [], ci_to_monomer = [] \<rparr>
             c frame_num monomer_frac of
        Inl e \<Rightarrow> Inl e
      | Inr ci \<Rightarrow> Inr (ci\<lparr>ci_from_monomer := [], ci_to_monomer := []\<rparr>))"

definition set_parent :: "cluster_info \<Rightarrow> cluster \<Rightarrow> py_error + cluster_info" where
  "set_parent ci c =
     (if \<not> ci_has_parent ci then
        (case compute_coordinate ci c of
           Inl e \<Rightarrow> Inl e
         | Inr d \<Rightarrow> Inr (ci\<lparr>ci_stored_data := d # ci_stored_data ci, ci_has_parent := True\<rparr>))
      else Inr ci)"

definition set_lifetime :: "cluster_info \<Rightarrow> cluster_info" where
  "set_lifetime ci = ci\<lparr>ci_lifetime := ci_death_frame ci - ci_birth_frame ci\<rparr>"

definition kill :: "cluster_info \<Rightarrow> int \<Rightarrow> cluster_info" where
  "kill ci frame_num = (set_lifetime (ci\<lparr>ci_death_frame := frame_num\<rparr>))\<lparr>ci_is_dead := True\<rparr>"

definition add_monomers ::
  "cluster_info \<Rightarrow> cluster \<Rightarrow> int \<Rightarrow> real \<Rightarrow> py_error + cluster_info" where
  "add_monomers ci c num_monomers monomer_frac =
     (case compute_coordinate ci c of
        Inl e \<Rightarrow> Inl e
      | Inr d \<Rightarrow>
          Inr (ci\<lparr>ci_from_monomer :=
                    ci_from_monomer ci @
                      [(dict_set ''monomer_fraction'' (FloatVal monomer_frac) d, num_monomers)]\<rparr>))"

definition remove_monomers :: "cluster_info \<Rightarrow> cluster \<Rightarrow> int \<Rightarrow> py_error + cluster_info" where
  "remove_monomers ci c num_monomers =
     (case compute_coordinate ci c of
        Inl e \<Rightarrow> Inl e
      | Inr d \<Rightarrow> Inr (ci\<lparr>ci_to_monomer := ci_to_monomer ci @ [(d, num_monomers)]\<rparr>))"

definition get_data :: "cluster_info \<Rightarrow> property_dict list" where
  "get_data ci = ci_stored_data ci"

definition get_monomer_gain_data :: "cluster_info \<Rightarrow> (property_dict \<times> int) list" where
  "get_monomer_gain_data ci = ci_from_monomer ci"

definition get_monomer_loss_data :: "cluster_info \<Rightarrow> (property_dict \<times> int) list" where
  "get_monomer_loss_data ci = ci_to_monomer ci"

definition get_lifetime :: "cluster_info \<Rightarrow> int" where
  "get_lifetime ci = ci_lifetime ci"

definition is_dead :: "cluster_info \<Rightarrow> bool" where
  "is_dead ci = ci_is_dead ci"

text \<open>
  A caller's sequence of calls of the methods that change one record; an exception ends
  the sequence.
\<close>

datatype ci_call =
    UpdateData cluster int real
  | Kill int
  | SetParent cluster
  | AddMonomers cluster int real
  | RemoveMonomers cluster int

fun run_calls :: "cluster_info \<Rightarrow> ci_call list \<Rightarrow> py_error + cluster_info" where
  "run_calls ci [] = Inr ci"
| "run_calls ci (UpdateData c frame_num monomer_frac # calls) =
     (case update_data ci c frame_num monomer_frac of
        Inl e \<Rightarrow> Inl e
      | Inr ci' \<Rightarrow> run_calls ci' calls)"
| "run_calls ci (Kill frame_num # calls) = run_calls (kill ci frame_num) calls"
| "run_calls ci (SetParent c # calls) =
     (case set_parent ci c of
        Inl e \<Rightarrow> Inl e
      | Inr ci' \<Rightarrow> run_calls ci' calls)"
| "run_calls ci (AddMonomers c num_monomers monomer_frac # calls) =
     (case add_monomers ci c num_monomers monomer_frac of
        Inl e \<Rightarrow> Inl e
      | Inr ci' \<Rightarrow> run_calls ci' calls)"
| "run_calls ci (RemoveMonomers c num_monomers # calls) =
     (case remove_monomers ci c num_monomers of
        Inl e \<Rightarrow> Inl e
      | Inr ci' \<Rightarrow> run_calls ci' calls)"

text \<open>
  The spec's count for the stored data, in its own words: the frame numbers passed to
  \<^verbatim>\<open>update_data\<close> while the record was alive, of which one counts when it is strictly
  greater than every frame number passed before it. \<open>parent_calls\<close> tells whether
  \<^verbatim>\<open>set_parent\<close> is among the calls.
\<close>

fun alive_frames :: "ci_call list \<Rightarrow> int list" where
  "alive_frames [] = []"
| "alive_frames (UpdateData c frame_num monomer_frac # calls) = frame_num # alive_frames calls"
| "alive_frames (Kill frame_num # calls) = []"
| "alive_frames (call # calls) = alive_frames calls"

fun parent_calls :: "ci_call list \<Rightarrow> bool" where
  "parent_calls [] = False"
| "parent_calls (SetParent c # calls) = True"
| "parent_calls (call # calls) = parent_calls calls"

fun count_increasing :: "int list \<Rightarrow> int list \<Rightarrow> nat" where
  "count_increasing seen [] = 0"
| "count_increasing seen (f # fs) =
     (if list_all (\<lambda>p. p < f) seen then 1 else 0) + count_increasing (f # seen) fs"

text \<open>The frame of the most recent \<^verbatim>\<open>kill\<close>: \<open>d\<close>, or that of the last \<^verbatim>\<open>kill\<close> among the calls.\<close>

fun last_kill :: "int \<Rightarrow> ci_call list \<Rightarrow> int" where
  "last_kill d [] = d"
| "last_kill d (Kill d' # calls) = last_kill d' calls"
| "last_kill d (call # calls) = last_kill d calls"

definition recognized_observables :: "string set" where
  "recognized_observables = {''num_bodies'', ''positions''}"

subsection \<open>Bond dictionary to groups\<close>

text \<open>
  \<^verbatim>\<open>get_groups\<close>. The bond dictionary is the list of its items; a lookup takes the first
  item with the key, and \<^verbatim>\<open>len(bond_dict.keys())\<close> counts the distinct keys. Body ids are
  array indices and are taken as naturals; \<^verbatim>\<open>to_group\<close> holds group numbers or \<open>-1\<close>.
  The result is \<open>None\<close> when the \<^verbatim>\<open>while\<close> loop does not end.
\<close>

type_synonym bond_dict = "(nat \<times> nat list) list"

definition total_states :: "bond_dict \<Rightarrow> nat" where
  "total_states bond_dict = length (remdups (map fst bond_dict))"

text \<open>Python's list index: a negative index counts from the end.\<close>

definition py_index :: "nat \<Rightarrow> int \<Rightarrow> nat option" where
  "py_index n i =
     (if 0 \<le> i \<and> i < int n then Some (nat i)
      else if - int n \<le> i \<and> i < 0 then Some (nat (int n + i))
      else None)"

text \<open>The \<^verbatim>\<open>for member in adj_list\<close> loop of one body.\<close>

fun for_members ::
  "nat list \<Rightarrow> int \<Rightarrow> nat list \<Rightarrow> nat list list \<times> int list \<times> nat list \<Rightarrow>
     py_error + nat list list \<times> int list \<times> nat list" where
  "for_members searched group_num [] st = Inr st"
| "for_members searched group_num (member # adj_list) (G, to_group, queue) =
     (case py_index (length G) group_num of
        None \<Rightarrow> Inl IndexError
      | Some k \<Rightarrow>
          if member \<notin> set (G ! k) \<and> \<not> member < length to_group then Inl IndexError
          else
            let (G', to_group') =
                  (if member \<notin> set (G ! k)
                   then (G[k := G ! k @ [member]], to_group[member := group_num])
                   else (G, to_group));
                queue' =
                  (if member \<notin> set searched \<and> member \<notin> set queue
                   then queue @ [member] else queue)
            in for_members searched group_num adj_list (G', to_group', queue'))"

text \<open>\<^verbatim>\<open>np.where(to_group == -1)[0][0]\<close>: the first index that holds \<open>-1\<close>, if there is one.\<close>

fun first_unassigned :: "int list \<Rightarrow> nat option" where
  "first_unassigned [] = None"
| "first_unassigned (v # vs) =
     (if v = - 1 then Some 0 else map_option Suc (first_unassigned vs))"

partial_function (option) groups_loop ::
  "bond_dict \<Rightarrow> nat \<Rightarrow> nat list list \<times> int list \<times> nat list \<times> nat list \<Rightarrow>
     (py_error + nat list list) option" where
  "groups_loop bond_dict n st =
     (case st of (G, to_group, queue, searched) \<Rightarrow>
        (case queue of
           [] \<Rightarrow> Some (Inr G)
         | bod # queue' \<Rightarrow>
             if \<not> bod < length to_group then Some (Inl IndexError)
             else
               (case map_of bond_dict bod of
                  None \<Rightarrow> Some (Inl KeyError)
                | Some adj_list \<Rightarrow>
                    (case for_members searched (to_group ! bod) adj_list (G, to_group, queue') of
                       Inl e \<Rightarrow> Some (Inl e)
                     | Inr (G1, to_group1, queue1) \<Rightarrow>
                         let searched1 = searched @ [bod] in
                         if queue1 = [] \<and> length searched1 \<noteq> n then
                           (case first_unassigned to_group1 of
                              None \<Rightarrow> Some (Inl IndexError)
                            | Some unassigned \<Rightarrow>
                                groups_loop bond_dict n
                                  (G1 @ [[unassigned]],
                                   to_group1[unassigned := int (length (G1 @ [[unassigned]])) - 1],
                                   [unassigned], searched1))
                         else groups_loop bond_dict n (G1, to_group1, queue1, searched1)))))"

declare groups_loop.simps [code]

definition get_groups :: "bond_dict \<Rightarrow> (py_error + nat list list) option" where
  "get_groups bond_dict =
     (let n = total_states bond_dict in
      if n = 0 then Some (Inl IndexError)
      else groups_loop bond_dict n ([[0]], (replicate n (- 1))[0 := 0], [0], []))"

text \<open>The bond relation of a dictionary and the ids it lists for a body.\<close>

definition adj :: "bond_dict \<Rightarrow> nat \<Rightarrow> nat list" where
  "adj bond_dict a = (case map_of bond_dict a of None \<Rightarrow> [] | Some adj_list \<Rightarrow> adj_list)"

definition bonds :: "bond_dict \<Rightarrow> (nat \<times> nat) set" where
  "bonds bond_dict = {(a, b). b \<in> set (adj bond_dict a)}"

definition reachable :: "bond_dict \<Rightarrow> nat \<Rightarrow> nat \<Rightarrow> bool" where
  "reachable bond_dict a b = ((a, b) \<in> (bonds bond_dict)\<^sup>*)"


subsection \<open>Example inputs and the properties the claims speak of\<close>

text \<open>
  The domain \<open>[0,10] \<times> [0,10]\<close> with \<open>R = 2\<close> has 10 cells of size 1 on each axis, numbered
  0 to 9. \<open>edge_body\<close> lies on the upper bound of the first axis, \<open>inner_body\<close> half a unit
  from it, and \<open>stray_body\<close> outside the domain.
\<close>

definition edge_body :: body where
  "edge_body = \<lparr>body_id = 0, body_position = [10, 5]\<rparr>"

definition inner_body :: body where
  "inner_body = \<lparr>body_id = 1, body_position = [19 / 2, 5]\<rparr>"

definition stray_body :: body where
  "stray_body = \<lparr>body_id = 2, body_position = [11, 5]\<rparr>"

definition example_grid :: neighborgrid where
  "example_grid =
     \<lparr> ng_lim = [(0, 10), (0, 10)], ng_domain_size = [10, 10], ng_periodic = [False, False],
       ng_R = 2, ng_dim = 2, ng_numD = [10, 10], ng_boxSize = [Fin 1, Fin 1],
       ng_map = Map.empty, ng_shift = [0, 0],
       ng_indexAdjustment = product_lists (replicate 2 [- 2, - 1, 0, 1, 2]) \<rparr>"

definition example_map :: "int list \<rightharpoonup> body list" where
  "example_map = [[10, 5] \<mapsto> [edge_body], [9, 5] \<mapsto> [inner_body]]"

definition example_cluster :: cluster where
  "example_cluster = Cluster_init [edge_body, inner_body] 0"

definition test_observer :: observer where
  "test_observer = init_test_set Observer_init"

definition unknown_observer :: observer where
  "unknown_observer = add_observable (add_observable Observer_init ''num_bodies'') ''num_bonds''"

definition blank_info :: "observer \<Rightarrow> cluster_info" where
  "blank_info ob =
     \<lparr> ci_birth_frame = 0, ci_death_frame = - 1, ci_last_updated = - 1,
       ci_lifetime = - 1, ci_is_dead = False, ci_has_parent = False,
       ci_observer = ob, ci_stored_data = [],
       ci_from_monomer = [], ci_to_monomer = [] \<rparr>"

definition example_calls :: "ci_call list" where
  "example_calls =
     [UpdateData example_cluster 1 (1 / 2), UpdateData example_cluster 1 (1 / 2),
      AddMonomers example_cluster 2 (1 / 2), UpdateData example_cluster 0 (1 / 2),
      UpdateData example_cluster 4 (1 / 4), RemoveMonomers example_cluster 1,
      Kill 6, UpdateData example_cluster 7 0]"

text \<open>
  The doubles that the literals \<^verbatim>\<open>4.05\<close> and \<^verbatim>\<open>0.9\<close> denote.
\<close>

definition double_4_05 :: real where
  "double_4_05 = 4559894622712627 / 2 ^ 50"

definition double_0_9 :: real where
  "double_0_9 = 8106479329266893 / 2 ^ 53"

text \<open>
  The cell count of an axis of domain size \<open>d\<close> can be stored: the domain size has not
  overflowed, \<open>R / 2\<close> is not 0, and the floor of the quotient fits a 64-bit integer.
\<close>

definition cell_count_fits :: "real \<Rightarrow> real \<Rightarrow> bool" where
  "cell_count_fits R d =
     (\<bar>d\<bar> < 2 ^ 1024 \<and> round_double (R / 2) \<noteq> 0 \<and>
      - (2 ^ 63) \<le> \<lfloor>round_double (d / round_double (R / 2))\<rfloor> \<and>
      \<lfloor>round_double (d / round_double (R / 2))\<rfloor> < 2 ^ 63)"

text \<open>
  The map that files each of the bodies under its cell index: a key holds the bodies of
  that index, in their order in the list, and a key that is the index of none of them is
  absent.
\<close>

definition filed :: "neighborgrid \<Rightarrow> body list \<Rightarrow> int list \<rightharpoonup> body list" where
  "filed g bodies key =
     (case filter (\<lambda>b. convertPosToIndex g b = Inr key) bodies of
        [] \<Rightarrow> None
      | bs \<Rightarrow> Some bs)"

text \<open>Some coordinate of the body lies outside \<open>[min, max]\<close> on some axis of the grid.\<close>

definition outside_bounds :: "neighborgrid \<Rightarrow> body \<Rightarrow> bool" where
  "outside_bounds g b =
     (\<exists>i < ng_dim g.
        get_position b ! i < fst (ng_lim g ! i) \<or> snd (ng_lim g ! i) < get_position b ! i)"

definition grid_shape :: "neighborgrid \<Rightarrow> bool" where
  "grid_shape g =
     (length (ng_lim g) = ng_dim g \<and> length (ng_shift g) = ng_dim g \<and>
      length (ng_boxSize g) = ng_dim g)"

definition good_observer :: "cluster_info \<Rightarrow> bool" where
  "good_observer ci = (set (get_observables (ci_observer ci)) \<subseteq> recognized_observables)"

text \<open>The entry that a first \<^verbatim>\<open>set_parent\<close> among the calls adds to the stored data.\<close>

definition parent_entry :: "cluster_info \<Rightarrow> ci_call list \<Rightarrow> nat" where
  "parent_entry ci calls = (if \<not> ci_has_parent ci \<and> parent_calls calls then 1 else 0)"

text \<open>
  The bond dictionaries the grouping is meant for: a non-empty dictionary whose keys are
  exactly \<open>0, \<dots>, N - 1\<close>, with a symmetric adjacency in which no body is bonded to itself.
\<close>

definition bonds_ok :: "bond_dict \<Rightarrow> bool" where
  "bonds_ok bd =
     (bd \<noteq> [] \<and> fst ` set bd = {0 ..< total_states bd} \<and>
      (\<forall>a < total_states bd. \<forall>b \<in> set (adj bd a). a \<in> set (adj bd b)) \<and>
      (\<forall>a < total_states bd. a \<notin> set (adj bd a)))"

text \<open>
  The state of the \<^verbatim>\<open>while\<close> loop at its head: the groups are non-empty and disjoint and hold
  ids below \<open>N\<close>; \<^verbatim>\<open>to_group\<close> maps each grouped id to its group and every other id to
  \<open>-1\<close>; the searched and the queued ids together are the grouped ones, each once; the
  queue lies in the last group; the bonds of a searched id stay in its group; and every
  id of a group is reachable from the first one.
\<close>

definition group_inv ::
  "bond_dict \<Rightarrow> nat list list \<Rightarrow> int list \<Rightarrow> nat list \<Rightarrow> nat list \<Rightarrow> bool" where
  "group_inv bd G tg q s =
     (G \<noteq> [] \<and> [] \<notin> set G \<and> distinct (concat G) \<and>
      set (concat G) \<subseteq> {0 ..< total_states bd} \<and> length tg = total_states bd \<and>
      (\<forall>k < length G. \<forall>x \<in> set (G ! k). tg ! x = int k) \<and>
      (\<forall>x < total_states bd. x \<notin> set (concat G) \<longrightarrow> tg ! x = - 1) \<and>
      distinct (s @ q) \<and> set s \<union> set q = set (concat G) \<and> set q \<subseteq> set (last G) \<and>
      (\<forall>k < length G. \<forall>x \<in> set (G ! k). x \<in> set s \<longrightarrow> set (adj bd x) \<subseteq> set (G ! k)) \<and>
      (\<forall>g \<in> set G. \<forall>x \<in> set g. reachable bd (hd g) x))"

text \<open>Example dictionaries: a pair and a single body, a self-bond, a gap in the keys, and
  a bond to an id that is no key.\<close>

definition example_bonds :: bond_dict where
  "example_bonds = [(0, [1]), (1, [0]), (2, [])]"

definition self_bond :: bond_dict where
  "self_bond = [(0, [0]), (1, [])]"



section \<open>Properties of the neighbour grid\<close>

subsection \<open>Evaluation on the example grid\<close>

lemma sqrt_less_iff_sq: "0 < r \<Longrightarrow> (sqrt x < r) = (x < r\<^sup>2)"
  by (metis real_sqrt_less_iff real_sqrt_abs abs_of_pos)

lemmas float_eval =
  round_double_def float_exponent_def pow2_def round_half_even_def bit_length.simps Let_def

lemma round_double_examples:
  "round_double 1 = 1" "round_double 5 = 5" "round_double 10 = 10"
  "round_double (19 / 2) = 19 / 2" "round_double (- (1 / 2)) = - (1 / 2)"
  "round_double (1 / 2) = 1 / 2" "round_double (- 20) = - 20"
  by (simp_all add: float_eval)

lemma round_double_0: "round_double 0 = 0"
  by (simp add: round_double_def)

lemma example_axis:
  "axis_numD 2 10 = Inr 10" "axis_boxSize 10 10 = Fin 1"
  by (simp_all add: axis_numD_def axis_boxSize_def np_store_int64_def truncate_real_def
      int64_min_def round_double_examples)

lemma example_grid_init: "Neighborgrid_init [(0, 10), (0, 10)] 2 [False, False] = Inr example_grid"
  by (simp add: Neighborgrid_init_def example_grid_def example_axis round_double_examples
      numeral_2_eq_2)

lemma edge_body_index: "convertPosToIndex (example_grid\<lparr>ng_map := m\<rparr>) edge_body = Inr [10, 5]"
  by (simp add: convertPosToIndex_def example_grid_def edge_body_def get_position_def np_zip_def
      truncate_real_def int64_min_def round_double_examples)

lemma inner_body_index: "convertPosToIndex (example_grid\<lparr>ng_map := m\<rparr>) inner_body = Inr [9, 5]"
  by (simp add: convertPosToIndex_def example_grid_def inner_body_def get_position_def np_zip_def
      truncate_real_def int64_min_def round_double_examples)

lemma stray_body_index:
  "convertPosToIndex (example_grid\<lparr>ng_map := m\<rparr>) stray_body =
     Inl (ValueError ''Particle is outside the set bounds'')"
  by (simp add: convertPosToIndex_def example_grid_def stray_body_def get_position_def np_zip_def)

lemma example_update:
  "update (example_grid\<lparr>ng_map := m\<rparr>) [edge_body, inner_body] =
     (None, example_grid\<lparr>ng_map := example_map\<rparr>)"
  using edge_body_index inner_body_index
  by (simp add: update_def addItemToMap_def example_map_def)

lemma inner_body_neighborhood:
  "getNeighborhood (example_grid\<lparr>ng_map := example_map\<rparr>) inner_body = Inr []"
  using inner_body_index[of example_map]
  by (simp add: getNeighborhood_def AdjacentBoxes_def neighborBox_def box_neighbors_def
      example_grid_def example_map_def numeral_2_eq_2 wrap64_def np_mod_def)

lemma edge_body_neighborhood:
  "getNeighborhood (example_grid\<lparr>ng_map := example_map\<rparr>) edge_body = Inr [inner_body]"
  using edge_body_index[of example_map]
  by (simp add: getNeighborhood_def AdjacentBoxes_def neighborBox_def box_neighbors_def
      example_grid_def example_map_def numeral_2_eq_2 wrap64_def np_mod_def
      distance_to_body_def distance_sq_def minimum_image_def edge_body_def inner_body_def
      sqrt_less_iff_sq power2_eq_square)

lemma inner_body_brute_force:
  "brute_force_neighbors (example_grid\<lparr>ng_map := m\<rparr>) [edge_body, inner_body] inner_body =
     [edge_body]"
  by (simp add: brute_force_neighbors_def example_grid_def distance_to_body_def distance_sq_def
      minimum_image_def edge_body_def inner_body_def sqrt_less_iff_sq power2_eq_square)

text \<open>
  Claim C1: for every configuration loaded by \<^verbatim>\<open>update\<close> and every body \<open>b\<close> of it,
  \<^verbatim>\<open>getNeighborhood(b)\<close> returns exactly the other bodies whose minimum-image distance to
  \<open>b\<close> is below \<open>R\<close>, as an all-pairs scan does. On the code this fails for a body on the upper
  bound of an axis: the bounds test accepts the coordinate \<open>max\<close>, the body is filed under
  the cell index \<open>numD\<close>, and \<^verbatim>\<open>AdjacentBoxes\<close> only ever names the cells \<open>0\<close> to \<open>numD - 1\<close>.
  With \<open>edge_body\<close> at \<open>(10, 5)\<close> and \<open>inner_body\<close> at \<open>(9.5, 5)\<close>, at distance \<open>0.5 < R = 2\<close>,
  the neighbourhood of \<open>inner_body\<close> is empty although the all-pairs scan finds
  \<open>edge_body\<close>, and the relation is not even symmetric.
\<close>

theorem getNeighborhood_misses_body_on_upper_bound:
  "\<exists>g g'. Neighborgrid_init [(0, 10), (0, 10)] 2 [False, False] = Inr g \<and>
     update g [edge_body, inner_body] = (None, g') \<and>
     getNeighborhood g' inner_body = Inr [] \<and>
     brute_force_neighbors g' [edge_body, inner_body] inner_body = [edge_body] \<and>
     getNeighborhood g' edge_body = Inr [inner_body]"
  using example_grid_init example_update[of Map.empty] inner_body_neighborhood
    edge_body_neighborhood inner_body_brute_force[of example_map]
  by (simp add: example_grid_def)


subsection \<open>The constructor\<close>

lemma truncate_real_of_int: "truncate_real (of_int n) = n"
  by (simp add: truncate_real_def)

lemma axis_numD_fits:
  assumes "cell_count_fits R d"
  shows "axis_numD R d = Inr \<lfloor>round_double (d / round_double (R / 2))\<rfloor>"
  using assms
  by (simp add: cell_count_fits_def axis_numD_def np_store_int64_def truncate_real_of_int
      int64_min_def)

lemma axis_numD_fails:
  assumes "\<not> cell_count_fits R d"
  shows "axis_numD R d = Inl OverflowError \<or>
         axis_numD R d = Inl (ValueError ''cannot convert float NaN to integer'')"
proof (cases "2 ^ 1024 \<le> \<bar>d\<bar>")
  case True
  then show ?thesis by (simp add: axis_numD_def)
next
  case False
  show ?thesis
  proof (cases "round_double (R / 2) = 0")
    case True
    then show ?thesis using False by (simp add: axis_numD_def np_store_int64_def)
  next
    case h: False
    then have "\<not> (- (2 ^ 63) \<le> \<lfloor>round_double (d / round_double (R / 2))\<rfloor> \<and>
            \<lfloor>round_double (d / round_double (R / 2))\<rfloor> < 2 ^ 63)"
      using assms False by (simp add: cell_count_fits_def)
    then show ?thesis
      using False h
      by (simp add: axis_numD_def np_store_int64_def truncate_real_of_int int64_min_def)
  qed
qed

lemma init_loop_fits:
  "\<forall>d \<in> set ds. cell_count_fits R d \<Longrightarrow>
   init_loop R ds =
     Inr (map (\<lambda>d. \<lfloor>round_double (d / round_double (R / 2))\<rfloor>) ds,
          map (\<lambda>d. axis_boxSize d \<lfloor>round_double (d / round_double (R / 2))\<rfloor>) ds)"
  by (induction ds) (simp_all add: axis_numD_fits)

lemma init_loop_fails:
  "\<exists>d \<in> set ds. \<not> cell_count_fits R d \<Longrightarrow>
   init_loop R ds = Inl OverflowError \<or>
   init_loop R ds = Inl (ValueError ''cannot convert float NaN to integer'')"
proof (induction ds)
  case Nil
  then show ?case by simp
next
  case (Cons d ds)
  show ?case
  proof (cases "cell_count_fits R d")
    case True
    then have "\<exists>d \<in> set ds. \<not> cell_count_fits R d" using Cons.prems by auto
    then have "init_loop R ds = Inl OverflowError \<or>
      init_loop R ds = Inl (ValueError ''cannot convert float NaN to integer'')"
      by (rule Cons.IH)
    then show ?thesis using axis_numD_fits[OF True] by auto
  next
    case False
    then show ?thesis using axis_numD_fails[of R d] by auto
  qed
qed

lemma init_loop_length:
  "init_loop R ds = Inr (ns, bs) \<Longrightarrow> length ns = length ds \<and> length bs = length ds"
  by (induction ds arbitrary: ns bs) (auto split: sum.splits prod.splits)

text \<open>
  Claim C6: constructing a \<^verbatim>\<open>Neighborgrid\<close> fails with a construction error whenever
  \<open>domain_size \<le> 0\<close> on an axis or \<open>R \<le> 0\<close>, and succeeds otherwise. The constructor tests
  neither quantity; what can fail in it is the store of a cell count. What holds instead,
  for a non-empty \<open>lim\<close>: the construction fails whenever \<open>R = 0\<close>, and whenever on some axis
  the cell count \<open>floor (domain_size / (R / 2))\<close> is not a finite number that fits a 64-bit
  integer, with the \<^verbatim>\<open>OverflowError\<close> or \<^verbatim>\<open>ValueError\<close> of that store; it succeeds otherwise,
  with these cell counts, for a negative \<open>R\<close> and for domain sizes that are 0 or negative
  as well.
\<close>

theorem Neighborgrid_init_unvalidated:
  assumes "lims \<noteq> []"
  shows "(R = 0 \<longrightarrow> (\<exists>e. Neighborgrid_init lims R periodic = Inl e)) \<and>
         ((\<exists>(lo, hi) \<in> set lims. \<not> cell_count_fits R (round_double (hi - lo))) \<longrightarrow>
            Neighborgrid_init lims R periodic = Inl OverflowError \<or>
            Neighborgrid_init lims R periodic =
              Inl (ValueError ''cannot convert float NaN to integer'')) \<and>
         ((\<forall>(lo, hi) \<in> set lims. cell_count_fits R (round_double (hi - lo))) \<longrightarrow>
            (\<exists>g. Neighborgrid_init lims R periodic = Inr g \<and> ng_R g = R \<and>
                 ng_domain_size g = map (\<lambda>(lo, hi). round_double (hi - lo)) lims \<and>
                 ng_numD g =
                   map (\<lambda>(lo, hi). \<lfloor>round_double (round_double (hi - lo) / round_double (R / 2))\<rfloor>)
                     lims))"
proof -
  let ?ds = "map (\<lambda>(lo, hi). round_double (hi - lo)) lims"
  have fails: "Neighborgrid_init lims R periodic = Inl OverflowError \<or>
      Neighborgrid_init lims R periodic = Inl (ValueError ''cannot convert float NaN to integer'')"
    if "\<exists>(lo, hi) \<in> set lims. \<not> cell_count_fits R (round_double (hi - lo))"
  proof -
    have "\<exists>d \<in> set ?ds. \<not> cell_count_fits R d" using that by force
    then have "init_loop R ?ds = Inl OverflowError \<or>
      init_loop R ?ds = Inl (ValueError ''cannot convert float NaN to integer'')"
      by (rule init_loop_fails)
    then show ?thesis using assms by (auto simp: Neighborgrid_init_def Let_def)
  qed
  have zero: "\<exists>e. Neighborgrid_init lims R periodic = Inl e" if "R = 0"
  proof -
    obtain lo hi where "(lo, hi) \<in> set lims" using assms by (cases lims) auto
    moreover have "\<not> cell_count_fits R (round_double (hi - lo))"
      using that by (simp add: cell_count_fits_def round_double_0)
    ultimately have "\<exists>(lo, hi) \<in> set lims. \<not> cell_count_fits R (round_double (hi - lo))"
      by auto
    then show ?thesis using fails by auto
  qed
  have succeeds: "\<exists>g. Neighborgrid_init lims R periodic = Inr g \<and> ng_R g = R \<and>
                 ng_domain_size g = ?ds \<and>
                 ng_numD g =
                   map (\<lambda>(lo, hi). \<lfloor>round_double (round_double (hi - lo) / round_double (R / 2))\<rfloor>)
                     lims"
    if "\<forall>(lo, hi) \<in> set lims. cell_count_fits R (round_double (hi - lo))"
  proof -
    have "\<forall>d \<in> set ?ds. cell_count_fits R d" using that by auto
    then have "init_loop R ?ds =
       Inr (map (\<lambda>d. \<lfloor>round_double (d / round_double (R / 2))\<rfloor>) ?ds,
            map (\<lambda>d. axis_boxSize d \<lfloor>round_double (d / round_double (R / 2))\<rfloor>) ?ds)"
      by (rule init_loop_fits)
    then show ?thesis
      using assms by (simp add: Neighborgrid_init_def Let_def comp_def split_beta)
  qed
  show ?thesis using zero fails succeeds by blast
qed

text \<open>
  The domain \<open>[0, 10]\<close>: with \<open>R = 0\<close> the construction fails, with \<open>R = -1\<close> it succeeds with
  20 cells counted downwards.
\<close>

theorem Neighborgrid_init_unvalidated_witness:
  "(\<exists>e. Neighborgrid_init [(0, 10)] 0 [False] = Inl e) \<and>
   (\<exists>g. Neighborgrid_init [(0, 10)] (- 1) [False] = Inr g \<and> ng_R g = - 1 \<and>
      ng_domain_size g = [10] \<and> ng_numD g = [- 20])"
proof -
  have f: "cell_count_fits (- 1) 10"
    by (simp add: cell_count_fits_def round_double_examples)
  have n: "[(0, 10)] \<noteq> ([] :: (real \<times> real) list)" by simp
  show ?thesis
    using Neighborgrid_init_unvalidated[OF n, of 0 "[False]"]
      Neighborgrid_init_unvalidated[OF n, of "- 1" "[False]"] f
    by (simp add: round_double_examples)
qed

text \<open>
  Against claim C6 as stated: with \<open>R = -1 \<le> 0\<close> the construction succeeds, and so it does
  with a domain of size 0.
\<close>

theorem Neighborgrid_init_no_error_counterexample:
  "(\<exists>g. Neighborgrid_init [(0, 10)] (- 1) [False] = Inr g \<and>
        ng_numD g = [- 20] \<and> ng_boxSize g = [Fin (- 1 / 2)]) \<and>
   (\<exists>g. Neighborgrid_init [(0, 0)] 1 [False] = Inr g \<and>
        ng_numD g = [0] \<and> ng_boxSize g = [NaN])"
proof -
  have a: "axis_numD (- 1) 10 = Inr (- 20)" "axis_boxSize 10 (- 20) = Fin (- 1 / 2)"
    "axis_numD 1 0 = Inr 0" "axis_boxSize 0 0 = NaN"
    by (simp_all add: axis_numD_def axis_boxSize_def np_store_int64_def truncate_real_def
        int64_min_def round_double_examples round_double_0)
  show ?thesis
    by (simp add: Neighborgrid_init_def Let_def a round_double_examples round_double_0)
qed

text \<open>
  Claim C7: for every successfully constructed \<^verbatim>\<open>Neighborgrid\<close>, \<open>boxSize[i] \<ge> R / 2\<close> on
  every axis, where \<open>numD = floor (domain_size / (R / 2))\<close> and
  \<open>boxSize = domain_size / numD\<close>. The code means a lower bound on the cell size (its
  comment asks for boxes of at least a fixed size), which the exact quotients of a positive
  domain size and a positive \<open>R\<close> keep, and misses it by rounding: on the domain \<open>[0, 4.05]\<close> with
  \<open>R = 0.9\<close> the exact quotient \<open>4.05 / 0.45\<close> of the two doubles lies just below 9 and rounds
  to \<open>9.0\<close>, so that \<open>numD = 9\<close>, and the cell size \<open>4.05 / 9\<close> rounds to the double
  \<open>0.44999999999999996\<close>, which is below \<open>R / 2\<close>, the double \<open>0.45\<close>.
\<close>

theorem boxSize_below_half_R_after_rounding:
  "\<exists>g. Neighborgrid_init [(0, double_4_05)] double_0_9 [False] = Inr g \<and>
     ng_domain_size g = [double_4_05] \<and> ng_numD g = [9] \<and>
     ng_boxSize g = [Fin (2026619832316723 / 2 ^ 52)] \<and>
     round_double (double_0_9 / 2) = 8106479329266893 / 2 ^ 54 \<and>
     \<not> np_ge (ng_boxSize g ! 0) (round_double (double_0_9 / 2)) \<and>
     0 < double_0_9 \<and> 0 < double_4_05"
proof -
  have h: "round_double (double_0_9 / 2) = 8106479329266893 / 2 ^ 54"
    by (simp add: double_0_9_def float_eval)
  have d: "round_double (double_4_05 - 0) = double_4_05"
    by (simp add: double_4_05_def float_eval)
  have q: "round_double (double_4_05 / (8106479329266893 / 2 ^ 54)) = 9"
    by (simp add: double_4_05_def float_eval)
  have b: "round_double (double_4_05 / 9) = 2026619832316723 / 2 ^ 52"
    by (simp add: double_4_05_def float_eval)
  have s: "\<bar>double_4_05\<bar> < 2 ^ 1024" by (simp add: double_4_05_def)
  have n: "axis_numD double_0_9 double_4_05 = Inr 9"
    using s q by (simp add: axis_numD_def h np_store_int64_def truncate_real_def int64_min_def)
  have nine: "round_double 9 = 9" by (simp add: float_eval)
  have bs: "axis_boxSize double_4_05 9 = Fin (2026619832316723 / 2 ^ 52)"
    by (simp add: axis_boxSize_def nine b)
  have g: "Neighborgrid_init [(0, double_4_05)] double_0_9 [False] =
     Inr \<lparr> ng_lim = [(0, double_4_05)], ng_domain_size = [double_4_05],
           ng_periodic = [False], ng_R = double_0_9, ng_dim = 1, ng_numD = [9],
           ng_boxSize = [Fin (2026619832316723 / 2 ^ 52)], ng_map = Map.empty,
           ng_shift = [0], ng_indexAdjustment = [[- 2], [- 1], [0], [1], [2]] \<rparr>"
    using d by (simp add: Neighborgrid_init_def Let_def n bs)
  have lt: "\<not> np_ge (Fin (2026619832316723 / 2 ^ 52)) (round_double (double_0_9 / 2))"
    unfolding h by (simp add: np_ge_def)
  have pos: "0 < double_0_9" "0 < double_4_05" by (simp_all add: double_0_9_def double_4_05_def)
  show ?thesis
  proof (intro exI conjI)
    show "Neighborgrid_init [(0, double_4_05)] double_0_9 [False] =
     Inr \<lparr> ng_lim = [(0, double_4_05)], ng_domain_size = [double_4_05],
           ng_periodic = [False], ng_R = double_0_9, ng_dim = 1, ng_numD = [9],
           ng_boxSize = [Fin (2026619832316723 / 2 ^ 52)], ng_map = Map.empty,
           ng_shift = [0], ng_indexAdjustment = [[- 2], [- 1], [0], [1], [2]] \<rparr>"
      by (rule g)
  qed (simp_all only: neighborgrid.simps nth_Cons_0 h lt[unfolded h] pos not_False_eq_True)
qed

subsection \<open>Updates and the bounds test\<close>

lemma init_shape: "Neighborgrid_init lims R periodic = Inr g \<Longrightarrow> grid_shape (g\<lparr>ng_map := m\<rparr>)"
  by (auto simp: Neighborgrid_init_def grid_shape_def Let_def
      split: if_splits sum.splits prod.splits dest: init_loop_length)

lemma addItemToMap_fields:
  "ng_dim (addItemToMap g k v) = ng_dim g" "ng_lim (addItemToMap g k v) = ng_lim g"
  "ng_shift (addItemToMap g k v) = ng_shift g" "ng_boxSize (addItemToMap g k v) = ng_boxSize g"
  by (simp_all add: addItemToMap_def split: option.splits)

lemma addItemToMap_shape: "grid_shape (addItemToMap g k v) = grid_shape g"
  by (simp add: grid_shape_def addItemToMap_fields)

lemma addItemToMap_outside: "outside_bounds (addItemToMap g k v) = outside_bounds g"
  by (rule ext) (simp add: outside_bounds_def addItemToMap_fields)

lemma bounds_test:
  assumes "length ps = n" "length ls = n"
  shows "((\<exists>(p, (lo, hi)) \<in> set (zip ps ls). p < lo) \<or> (\<exists>(p, (lo, hi)) \<in> set (zip ps ls). hi < p)) =
         (\<exists>i < n. ps ! i < fst (ls ! i) \<or> snd (ls ! i) < ps ! i)"
proof -
  have "(\<exists>x \<in> set (zip ps ls). Q x) = (\<exists>i < n. Q (ps ! i, ls ! i))" for Q
    using assms by (fastforce simp: in_set_zip)
  from this[of "\<lambda>x. fst x < fst (snd x) \<or> snd (snd x) < fst x"]
  show ?thesis by (auto simp: split_beta)
qed

lemma convertPosToIndex_bounds:
  assumes "grid_shape g" "ng_dim g \<le> length (get_position b)"
  shows "if outside_bounds g b
         then convertPosToIndex g b = Inl (ValueError ''Particle is outside the set bounds'')
         else \<exists>key. convertPosToIndex g b = Inr key"
proof -
  let ?ps = "take (ng_dim g) (get_position b)"
  have l: "length ?ps = ng_dim g" using assms(2) by simp
  have z: "np_zip ?ps (ng_lim g) = Some (zip ?ps (ng_lim g))"
    "np_zip ?ps (zip (ng_shift g) (ng_boxSize g)) = Some (zip ?ps (zip (ng_shift g) (ng_boxSize g)))"
    using assms l by (simp_all add: np_zip_def grid_shape_def)
  have "((\<exists>(p, (lo, hi)) \<in> set (zip ?ps (ng_lim g)). p < lo) \<or>
         (\<exists>(p, (lo, hi)) \<in> set (zip ?ps (ng_lim g)). hi < p)) = outside_bounds g b"
    using bounds_test[OF l, of "ng_lim g"] assms(1)
    by (auto simp: outside_bounds_def grid_shape_def)
  then show ?thesis
    using z by (simp add: convertPosToIndex_def Let_def)
qed

lemma update_loop_error:
  assumes "grid_shape g" "\<forall>b \<in> set bodies. ng_dim g \<le> length (get_position b)"
    "\<exists>b \<in> set bodies. outside_bounds g b"
  shows "update_loop g bodies =
           (Some (ValueError ''Particle is outside the set bounds''),
            snd (update_loop g (takeWhile (\<lambda>b. \<not> outside_bounds g b) bodies))) \<and>
         fst (update_loop g (takeWhile (\<lambda>b. \<not> outside_bounds g b) bodies)) = None"
  using assms
proof (induction bodies arbitrary: g)
  case Nil
  then show ?case by simp
next
  case (Cons b bodies)
  note c = convertPosToIndex_bounds[of g b]
  show ?case
  proof (cases "outside_bounds g b")
    case True
    then show ?thesis using c Cons.prems by simp
  next
    case False
    then obtain key where k: "convertPosToIndex g b = Inr key"
      using c Cons.prems by auto
    let ?g = "addItemToMap g key b"
    have "update_loop ?g bodies =
           (Some (ValueError ''Particle is outside the set bounds''),
            snd (update_loop ?g (takeWhile (\<lambda>b. \<not> outside_bounds ?g b) bodies))) \<and>
         fst (update_loop ?g (takeWhile (\<lambda>b. \<not> outside_bounds ?g b) bodies)) = None"
      using Cons.prems False
      by (intro Cons.IH) (auto simp: addItemToMap_shape addItemToMap_outside addItemToMap_fields)
    then show ?thesis using k False by (simp add: addItemToMap_outside)
  qed
qed

lemma addItemToMap_alt:
  "addItemToMap g k v =
     g\<lparr>ng_map := (ng_map g)(k \<mapsto> (case ng_map g k of None \<Rightarrow> [] | Some vs \<Rightarrow> vs) @ [v])\<rparr>"
  by (simp add: addItemToMap_def split: option.splits)

lemma convertPosToIndex_map: "convertPosToIndex (g\<lparr>ng_map := m\<rparr>) b = convertPosToIndex g b"
  by (simp add: convertPosToIndex_def cong: option.case_cong if_cong)

lemma update_loop_files:
  assumes "\<forall>b \<in> set bodies. \<exists>key. convertPosToIndex g b = Inr key"
  shows "update_loop g bodies =
           (None, g\<lparr>ng_map := \<lambda>key.
              case filter (\<lambda>b. convertPosToIndex g b = Inr key) bodies of
                [] \<Rightarrow> ng_map g key
              | bs \<Rightarrow> Some ((case ng_map g key of None \<Rightarrow> [] | Some vs \<Rightarrow> vs) @ bs)\<rparr>)"
  using assms
proof (induction bodies arbitrary: g)
  case Nil
  then show ?case by simp
next
  case (Cons b bodies)
  obtain k where k: "convertPosToIndex g b = Inr k" using Cons.prems by auto
  let ?old = "case ng_map g k of None \<Rightarrow> [] | Some vs \<Rightarrow> vs"
  let ?g = "g\<lparr>ng_map := (ng_map g)(k \<mapsto> ?old @ [b])\<rparr>"
  have c: "convertPosToIndex ?g = convertPosToIndex g"
    by (rule ext) (rule convertPosToIndex_map)
  have "\<forall>b \<in> set bodies. \<exists>key. convertPosToIndex ?g b = Inr key"
    using Cons.prems by (simp add: c)
  then have ih: "update_loop ?g bodies =
           (None, ?g\<lparr>ng_map := \<lambda>key.
              case filter (\<lambda>b. convertPosToIndex ?g b = Inr key) bodies of
                [] \<Rightarrow> ng_map ?g key
              | bs \<Rightarrow> Some ((case ng_map ?g key of None \<Rightarrow> [] | Some vs \<Rightarrow> vs) @ bs)\<rparr>)"
    by (rule Cons.IH)
  have m: "(\<lambda>key. case filter (\<lambda>b. convertPosToIndex g b = Inr key) bodies of
                [] \<Rightarrow> ((ng_map g)(k \<mapsto> ?old @ [b])) key
              | bs \<Rightarrow> Some ((case ((ng_map g)(k \<mapsto> ?old @ [b])) key of
                               None \<Rightarrow> [] | Some vs \<Rightarrow> vs) @ bs)) =
           (\<lambda>key. case filter (\<lambda>b. convertPosToIndex g b = Inr key) (b # bodies) of
                [] \<Rightarrow> ng_map g key
              | bs \<Rightarrow> Some ((case ng_map g key of None \<Rightarrow> [] | Some vs \<Rightarrow> vs) @ bs))"
  proof (rule ext)
    fix key
    show "(case filter (\<lambda>b. convertPosToIndex g b = Inr key) bodies of
                [] \<Rightarrow> ((ng_map g)(k \<mapsto> ?old @ [b])) key
              | bs \<Rightarrow> Some ((case ((ng_map g)(k \<mapsto> ?old @ [b])) key of
                               None \<Rightarrow> [] | Some vs \<Rightarrow> vs) @ bs)) =
           (case filter (\<lambda>b. convertPosToIndex g b = Inr key) (b # bodies) of
                [] \<Rightarrow> ng_map g key
              | bs \<Rightarrow> Some ((case ng_map g key of None \<Rightarrow> [] | Some vs \<Rightarrow> vs) @ bs))"
    proof (cases "key = k")
      case True
      then show ?thesis using k by (simp split: list.splits)
    next
      case False
      then show ?thesis using k by (simp split: list.splits)
    qed
  qed
  have sel: "ng_map ?g = (ng_map g)(k \<mapsto> ?old @ [b])" by simp
  have r: "?g\<lparr>ng_map := F\<rparr> = g\<lparr>ng_map := F\<rparr>" for F by simp
  note ih' = ih[unfolded c sel m r]
  have "update_loop g (b # bodies) = update_loop ?g bodies"
    by (simp add: k addItemToMap_alt)
  then show ?case by (simp only: ih')
qed

lemma update_files:
  assumes "\<forall>b \<in> set bodies. \<exists>key. convertPosToIndex g b = Inr key"
  shows "update_loop (g\<lparr>ng_map := Map.empty\<rparr>) bodies = (None, g\<lparr>ng_map := filed g bodies\<rparr>)"
proof -
  have c: "convertPosToIndex (g\<lparr>ng_map := Map.empty\<rparr>) = convertPosToIndex g"
    by (rule ext) (rule convertPosToIndex_map)
  have f: "(\<lambda>key. case filter (\<lambda>b. convertPosToIndex g b = Inr key) bodies of
              [] \<Rightarrow> None | bs \<Rightarrow> Some bs) = filed g bodies"
    by (rule ext) (simp add: filed_def)
  have "\<forall>b \<in> set bodies. \<exists>key. convertPosToIndex (g\<lparr>ng_map := Map.empty\<rparr>) b = Inr key"
    using assms by (simp add: c)
  from update_loop_files[OF this] show ?thesis
    by (simp add: c f cong: list.case_cong)
qed

text \<open>
  Claim C5: \<^verbatim>\<open>update(bodies)\<close> raises an out-of-bounds error when a coordinate of some body
  lies outside \<open>[min, max]\<close> on a non-periodic axis, the error ends that update, and no
  partial grid state is left behind. The first two parts hold, on every axis whatever its
  periodicity flag. The third does not: the map was cleared before the loop and is not
  restored. What holds instead: for a grid from the constructor, whatever its map, and
  bodies with at least \<open>dim\<close> coordinates, \<^verbatim>\<open>update\<close> ends with the \<^verbatim>\<open>ValueError\<close> exactly
  when some body is out of bounds, and in either case it leaves the map in which each body
  before the first out-of-bounds one (every body, when there is none) is filed under its
  cell index, in the order of the list, and which holds nothing else: neither what the map
  held before the call nor any body from the first out-of-bounds one on.
\<close>

theorem update_out_of_bounds:
  assumes "Neighborgrid_init lims R periodic = Inr g0"
    and "\<forall>b \<in> set bodies. ng_dim g0 \<le> length (get_position b)"
  shows "update (g0\<lparr>ng_map := m\<rparr>) bodies =
           (if \<exists>b \<in> set bodies. outside_bounds g0 b
            then Some (ValueError ''Particle is outside the set bounds'') else None,
            g0\<lparr>ng_map := filed g0 (takeWhile (\<lambda>b. \<not> outside_bounds g0 b) bodies)\<rparr>) \<and>
         (\<forall>b \<in> set (takeWhile (\<lambda>b. \<not> outside_bounds g0 b) bodies).
            \<exists>key. convertPosToIndex g0 b = Inr key)"
proof -
  let ?g = "g0\<lparr>ng_map := Map.empty\<rparr>"
  let ?pre = "takeWhile (\<lambda>b. \<not> outside_bounds g0 b) bodies"
  have s: "grid_shape ?g" using assms(1) by (rule init_shape)
  have s0: "grid_shape g0" using init_shape[OF assms(1), of "ng_map g0"] by simp
  have o: "outside_bounds ?g = outside_bounds g0"
    by (rule ext) (simp add: outside_bounds_def)
  have keys: "\<forall>b \<in> set ?pre. \<exists>key. convertPosToIndex g0 b = Inr key"
  proof
    fix b
    assume b: "b \<in> set ?pre"
    then have "b \<in> set bodies" by (rule set_takeWhileD[THEN conjunct1])
    then have "ng_dim g0 \<le> length (get_position b)" using assms(2) by simp
    moreover have "\<not> outside_bounds g0 b" using b by (rule set_takeWhileD[THEN conjunct2])
    ultimately show "\<exists>key. convertPosToIndex g0 b = Inr key"
      using convertPosToIndex_bounds[OF s0, of b] by simp
  qed
  have pre: "update_loop ?g ?pre = (None, g0\<lparr>ng_map := filed g0 ?pre\<rparr>)"
    using keys by (rule update_files)
  have u: "update (g0\<lparr>ng_map := m\<rparr>) bodies = update_loop ?g bodies"
    by (simp add: update_def)
  show ?thesis
  proof (cases "\<exists>b \<in> set bodies. outside_bounds g0 b")
    case True
    have "update_loop ?g bodies =
           (Some (ValueError ''Particle is outside the set bounds''),
            snd (update_loop ?g (takeWhile (\<lambda>b. \<not> outside_bounds ?g b) bodies)))"
      using update_loop_error[OF s, of bodies] assms(2) True by (simp add: o)
    then show ?thesis using True keys by (simp add: u o pre)
  next
    case False
    then have e: "?pre = bodies" by (simp add: takeWhile_eq_all_conv)
    show ?thesis using False keys pre by (simp add: u e)
  qed
qed

text \<open>
  A completed update, then an update that meets \<open>stray_body\<close> after \<open>inner_body\<close>: the
  first leaves both bodies filed, the second \<open>inner_body\<close> alone.
\<close>

theorem update_out_of_bounds_witness:
  "update example_grid [edge_body, inner_body] =
     (None, example_grid\<lparr>ng_map := filed example_grid [edge_body, inner_body]\<rparr>) \<and>
   update (example_grid\<lparr>ng_map := example_map\<rparr>) [inner_body, stray_body, edge_body] =
     (Some (ValueError ''Particle is outside the set bounds''),
      example_grid\<lparr>ng_map := filed example_grid [inner_body]\<rparr>) \<and>
   filed example_grid [inner_body] [9, 5] = Some [inner_body] \<and>
   filed example_grid [inner_body] [10, 5] = None"
proof -
  have o: "outside_bounds example_grid stray_body" "\<not> outside_bounds example_grid inner_body"
    "\<not> outside_bounds example_grid edge_body"
    by (simp_all add: outside_bounds_def example_grid_def stray_body_def inner_body_def
        edge_body_def get_position_def numeral_2_eq_2 Ex_less_Suc)
  have l: "\<forall>b \<in> set [inner_body, stray_body, edge_body]. ng_dim example_grid \<le> length (get_position b)"
    "\<forall>b \<in> set [edge_body, inner_body]. ng_dim example_grid \<le> length (get_position b)"
    by (simp_all add: example_grid_def stray_body_def inner_body_def edge_body_def get_position_def)
  have i: "convertPosToIndex example_grid inner_body = Inr [9, 5]"
    using inner_body_index[of "ng_map example_grid"] by simp
  have f: "filed example_grid [inner_body] [9, 5] = Some [inner_body]"
    "filed example_grid [inner_body] [10, 5] = None"
    by (simp_all add: filed_def i)
  have g: "example_grid\<lparr>ng_map := ng_map example_grid\<rparr> = example_grid" by simp
  show ?thesis
    using update_out_of_bounds[OF example_grid_init l(1), of example_map]
      update_out_of_bounds[OF example_grid_init l(2), of "ng_map example_grid"] o f
    by (simp add: g)
qed

text \<open>
  Against claim C5 as stated: after the failing update the map is neither the one before
  the call (the cell of \<open>edge_body\<close> is gone) nor empty (\<open>inner_body\<close> has been filed).
\<close>

theorem update_partial_state_counterexample:
  "\<exists>g g1 g2 e. Neighborgrid_init [(0, 10), (0, 10)] 2 [False, False] = Inr g \<and>
     update g [edge_body, inner_body] = (None, g1) \<and>
     update g1 [inner_body, stray_body, edge_body] = (Some e, g2) \<and>
     ng_map g1 [10, 5] = Some [edge_body] \<and> ng_map g2 [10, 5] = None \<and>
     ng_map g2 [9, 5] = Some [inner_body] \<and> ng_map g2 \<noteq> ng_map g1"
proof -
  have u: "update (example_grid\<lparr>ng_map := example_map\<rparr>) [inner_body, stray_body, edge_body] =
     (Some (ValueError ''Particle is outside the set bounds''),
      example_grid\<lparr>ng_map := [[9, 5] \<mapsto> [inner_body]]\<rparr>)"
    using inner_body_index stray_body_index by (simp add: update_def addItemToMap_def)
  have n: "[[9, 5] \<mapsto> [inner_body]] \<noteq> example_map"
  proof
    assume "[[9, 5] \<mapsto> [inner_body]] = example_map"
    then have "[[9, 5] \<mapsto> [inner_body]] [10, 5 :: int] = example_map [10, 5]" by simp
    then show False by (simp add: example_map_def)
  qed
  show ?thesis
    using example_grid_init example_update[of Map.empty] u n
    by (simp add: example_grid_def example_map_def)
qed

subsection \<open>The periodicity flags\<close>

lemma update_loop_periodic:
  "update_loop (g\<lparr>ng_periodic := p\<rparr>) bodies =
     (fst (update_loop g bodies), (snd (update_loop g bodies))\<lparr>ng_periodic := p\<rparr>)"
proof (induction bodies arbitrary: g)
  case Nil
  then show ?case by simp
next
  case (Cons b bodies)
  have c: "convertPosToIndex (g\<lparr>ng_periodic := p\<rparr>) b = convertPosToIndex g b"
    by (simp add: convertPosToIndex_def Let_def cong: option.case_cong if_cong)
  have a: "addItemToMap (g\<lparr>ng_periodic := p\<rparr>) k b = (addItemToMap g k b)\<lparr>ng_periodic := p\<rparr>" for k
    by (simp add: addItemToMap_def split: option.splits)
  show ?case using Cons.IH by (simp add: c a split: sum.splits)
qed

text \<open>
  Claim C9: the periodicity flags given to the constructor have no effect on any grid
  operation. Two grids that differ in their flags only give the same results from the
  constructor (up to the stored flags), \<^verbatim>\<open>convertPosToIndex\<close>, \<^verbatim>\<open>AdjacentBoxes\<close>,
  \<^verbatim>\<open>getNeighborhood\<close> and \<^verbatim>\<open>update\<close> (whose resulting grids again differ in the flags only).
\<close>

theorem periodic_flags_unused:
  "Neighborgrid_init lims R p = map_sum id (\<lambda>g. g\<lparr>ng_periodic := p\<rparr>) (Neighborgrid_init lims R p') \<and>
   convertPosToIndex (g\<lparr>ng_periodic := p\<rparr>) b = convertPosToIndex g b \<and>
   AdjacentBoxes (g\<lparr>ng_periodic := p\<rparr>) centerBox = AdjacentBoxes g centerBox \<and>
   getNeighborhood (g\<lparr>ng_periodic := p\<rparr>) b = getNeighborhood g b \<and>
   update (g\<lparr>ng_periodic := p\<rparr>) bodies =
     (fst (update g bodies), (snd (update g bodies))\<lparr>ng_periodic := p\<rparr>)"
proof -
  have c: "convertPosToIndex (g\<lparr>ng_periodic := p\<rparr>) b = convertPosToIndex g b"
    by (simp add: convertPosToIndex_def Let_def cong: option.case_cong if_cong)
  have a: "AdjacentBoxes (g\<lparr>ng_periodic := p\<rparr>) cb = AdjacentBoxes g cb" for cb
    by (simp add: AdjacentBoxes_def neighborBox_def)
  have n: "box_neighbors (g\<lparr>ng_periodic := p\<rparr>) b = box_neighbors g b"
    by (rule ext) (simp add: box_neighbors_def cong: option.case_cong)
  have u: "update (g\<lparr>ng_periodic := p\<rparr>) bodies =
     (fst (update g bodies), (snd (update g bodies))\<lparr>ng_periodic := p\<rparr>)"
  proof -
    have e: "(g\<lparr>ng_periodic := p\<rparr>)\<lparr>ng_map := Map.empty\<rparr> = (g\<lparr>ng_map := Map.empty\<rparr>)\<lparr>ng_periodic := p\<rparr>"
      by simp
    show ?thesis unfolding update_def e by (rule update_loop_periodic)
  qed
  have i: "Neighborgrid_init lims R p = map_sum id (\<lambda>g. g\<lparr>ng_periodic := p\<rparr>) (Neighborgrid_init lims R p')"
    by (simp add: Neighborgrid_init_def Let_def split: sum.splits prod.splits)
  have h: "getNeighborhood (g\<lparr>ng_periodic := p\<rparr>) b = getNeighborhood g b"
    by (simp add: getNeighborhood_def c a n cong: sum.case_cong)
  show ?thesis using c a h u i by simp
qed

theorem periodic_flags_unused_witness:
  "getNeighborhood (example_grid\<lparr>ng_map := example_map, ng_periodic := [True, True]\<rparr>) edge_body =
     Inr [inner_body]"
  using periodic_flags_unused[of "[]" 0 "[True, True]" "[]"
      "example_grid\<lparr>ng_map := example_map\<rparr>" edge_body "[]" "[]"]
    edge_body_neighborhood
  by simp


section \<open>Properties of the cluster records\<close>

lemma compute_loop_good:
  "set obs \<subseteq> recognized_observables \<Longrightarrow> \<exists>d'. compute_loop c obs d = Inr d'"
  by (induction obs arbitrary: d) (auto simp: recognized_observables_def)

lemma compute_loop_bad:
  "\<not> set obs \<subseteq> recognized_observables \<Longrightarrow> compute_loop c obs d = Inl TypeError"
  by (induction obs arbitrary: d) (auto simp: recognized_observables_def)

lemma compute_coordinate_good:
  "set (get_observables (ci_observer ci)) \<subseteq> recognized_observables \<Longrightarrow>
   \<exists>d. compute_coordinate ci c = Inr d"
  by (simp add: compute_coordinate_def compute_loop_good)

lemma compute_coordinate_bad:
  "\<not> set (get_observables (ci_observer ci)) \<subseteq> recognized_observables \<Longrightarrow>
   compute_coordinate ci c = Inl TypeError"
  by (simp add: compute_coordinate_def compute_loop_bad)

lemma update_data_cases:
  assumes "good_observer ci"
  shows "\<exists>ci'. update_data ci c f m = Inr ci' \<and> good_observer ci' \<and>
           ci_is_dead ci' = ci_is_dead ci \<and> ci_has_parent ci' = ci_has_parent ci \<and>
           (if ci_last_updated ci < f \<and> \<not> ci_is_dead ci
            then length (ci_stored_data ci') = Suc (length (ci_stored_data ci)) \<and>
                 ci_last_updated ci' = f
            else ci' = ci)"
proof -
  obtain d where "compute_coordinate ci c = Inr d"
    using assms compute_coordinate_good unfolding good_observer_def by blast
  then show ?thesis using assms
    by (simp add: update_data_def good_observer_def)
qed

lemma set_parent_cases:
  assumes "good_observer ci"
  shows "\<exists>ci'. set_parent ci c = Inr ci' \<and> good_observer ci' \<and>
           ci_is_dead ci' = ci_is_dead ci \<and> ci_last_updated ci' = ci_last_updated ci \<and>
           ci_has_parent ci' \<and>
           length (ci_stored_data ci') =
             length (ci_stored_data ci) + (if ci_has_parent ci then 0 else 1)"
proof -
  obtain d where "compute_coordinate ci c = Inr d"
    using assms compute_coordinate_good unfolding good_observer_def by blast
  then show ?thesis using assms
    by (simp add: set_parent_def good_observer_def)
qed

lemma add_monomers_cases:
  assumes "good_observer ci"
  shows "\<exists>ci'. add_monomers ci c n m = Inr ci' \<and> good_observer ci' \<and>
           ci_is_dead ci' = ci_is_dead ci \<and> ci_last_updated ci' = ci_last_updated ci \<and>
           ci_has_parent ci' = ci_has_parent ci \<and> ci_stored_data ci' = ci_stored_data ci"
proof -
  obtain d where "compute_coordinate ci c = Inr d"
    using assms compute_coordinate_good unfolding good_observer_def by blast
  then show ?thesis using assms
    by (simp add: add_monomers_def good_observer_def)
qed

lemma remove_monomers_cases:
  assumes "good_observer ci"
  shows "\<exists>ci'. remove_monomers ci c n = Inr ci' \<and> good_observer ci' \<and>
           ci_is_dead ci' = ci_is_dead ci \<and> ci_last_updated ci' = ci_last_updated ci \<and>
           ci_has_parent ci' = ci_has_parent ci \<and> ci_stored_data ci' = ci_stored_data ci"
proof -
  obtain d where "compute_coordinate ci c = Inr d"
    using assms compute_coordinate_good unfolding good_observer_def by blast
  then show ?thesis using assms
    by (simp add: remove_monomers_def good_observer_def)
qed

lemma kill_fields:
  "good_observer (kill ci d) = good_observer ci" "ci_is_dead (kill ci d)"
  "ci_last_updated (kill ci d) = ci_last_updated ci"
  "ci_has_parent (kill ci d) = ci_has_parent ci"
  "ci_stored_data (kill ci d) = ci_stored_data ci"
  by (simp_all add: kill_def set_lifetime_def good_observer_def)

lemma parent_entry_simps:
  "parent_entry ci [] = 0"
  "parent_entry ci (SetParent c # calls) = (if ci_has_parent ci then 0 else 1)"
  "parent_entry ci (UpdateData c f m # calls) = parent_entry ci calls"
  "parent_entry ci (Kill d # calls) = parent_entry ci calls"
  "parent_entry ci (AddMonomers c n m # calls) = parent_entry ci calls"
  "parent_entry ci (RemoveMonomers c n # calls) = parent_entry ci calls"
  by (simp_all add: parent_entry_def)

lemma parent_entry_cong:
  "ci_has_parent ci' = ci_has_parent ci \<Longrightarrow> parent_entry ci' calls = parent_entry ci calls"
  by (simp add: parent_entry_def)

lemma parent_entry_done: "ci_has_parent ci \<Longrightarrow> parent_entry ci calls = 0"
  by (simp add: parent_entry_def)

lemma run_calls_dead:
  "good_observer ci \<Longrightarrow> ci_is_dead ci \<Longrightarrow>
   \<exists>ci'. run_calls ci calls = Inr ci' \<and>
     length (ci_stored_data ci') = length (ci_stored_data ci) + parent_entry ci calls"
proof (induction calls arbitrary: ci)
  case Nil
  then show ?case by (simp add: parent_entry_simps)
next
  case (Cons call calls)
  show ?case
  proof (cases call)
    case (UpdateData c f m)
    have "update_data ci c f m = Inr ci" using Cons.prems by (simp add: update_data_def)
    then show ?thesis using UpdateData Cons by (simp add: parent_entry_simps)
  next
    case (Kill d)
    have "\<exists>ci'. run_calls (kill ci d) calls = Inr ci' \<and>
      length (ci_stored_data ci') = length (ci_stored_data (kill ci d)) + parent_entry (kill ci d) calls"
      using Cons.prems by (intro Cons.IH) (simp_all add: kill_fields)
    then show ?thesis
      using Kill parent_entry_cong[of "kill ci d" ci calls]
      by (simp add: kill_fields parent_entry_simps)
  next
    case (SetParent c)
    obtain ci1 where u: "set_parent ci c = Inr ci1" and g1: "good_observer ci1"
      and d1: "ci_is_dead ci1 = ci_is_dead ci" and p1: "ci_has_parent ci1"
      and l1: "length (ci_stored_data ci1) =
                 length (ci_stored_data ci) + (if ci_has_parent ci then 0 else 1)"
      using set_parent_cases[OF Cons.prems(1), of c] by blast
    have "\<exists>ci'. run_calls ci1 calls = Inr ci' \<and>
      length (ci_stored_data ci') = length (ci_stored_data ci1) + parent_entry ci1 calls"
      using g1 d1 Cons.prems(2) by (intro Cons.IH) simp_all
    then show ?thesis
      using SetParent u l1 parent_entry_done[OF p1, of calls] by (simp add: parent_entry_simps)
  next
    case (AddMonomers c n m)
    obtain ci1 where u: "add_monomers ci c n m = Inr ci1" and g1: "good_observer ci1"
      and d1: "ci_is_dead ci1 = ci_is_dead ci" and p1: "ci_has_parent ci1 = ci_has_parent ci"
      and s1: "ci_stored_data ci1 = ci_stored_data ci"
      using add_monomers_cases[OF Cons.prems(1), of c n m] by blast
    have "\<exists>ci'. run_calls ci1 calls = Inr ci' \<and>
      length (ci_stored_data ci') = length (ci_stored_data ci1) + parent_entry ci1 calls"
      using g1 d1 Cons.prems(2) by (intro Cons.IH) simp_all
    then show ?thesis
      using AddMonomers u s1 parent_entry_cong[OF p1, of calls] by (simp add: parent_entry_simps)
  next
    case (RemoveMonomers c n)
    obtain ci1 where u: "remove_monomers ci c n = Inr ci1" and g1: "good_observer ci1"
      and d1: "ci_is_dead ci1 = ci_is_dead ci" and p1: "ci_has_parent ci1 = ci_has_parent ci"
      and s1: "ci_stored_data ci1 = ci_stored_data ci"
      using remove_monomers_cases[OF Cons.prems(1), of c n] by blast
    have "\<exists>ci'. run_calls ci1 calls = Inr ci' \<and>
      length (ci_stored_data ci') = length (ci_stored_data ci1) + parent_entry ci1 calls"
      using g1 d1 Cons.prems(2) by (intro Cons.IH) simp_all
    then show ?thesis
      using RemoveMonomers u s1 parent_entry_cong[OF p1, of calls]
      by (simp add: parent_entry_simps)
  qed
qed

lemma run_calls_length:
  assumes "good_observer ci" "\<not> ci_is_dead ci" "ci_last_updated ci \<in> set seen"
    "\<forall>p \<in> set seen. p \<le> ci_last_updated ci"
  shows "\<exists>ci'. run_calls ci calls = Inr ci' \<and>
           length (ci_stored_data ci') =
             length (ci_stored_data ci) + count_increasing seen (alive_frames calls) +
             parent_entry ci calls"
  using assms
proof (induction calls arbitrary: ci seen)
  case Nil
  then show ?case by (simp add: parent_entry_simps)
next
  case (Cons call calls)
  show ?case
  proof (cases call)
    case (UpdateData c f m)
    obtain ci1 where u: "update_data ci c f m = Inr ci1" and g1: "good_observer ci1"
      and d1: "ci_is_dead ci1 = ci_is_dead ci" and p1: "ci_has_parent ci1 = ci_has_parent ci"
      and c1: "if ci_last_updated ci < f \<and> \<not> ci_is_dead ci
            then length (ci_stored_data ci1) = Suc (length (ci_stored_data ci)) \<and>
                 ci_last_updated ci1 = f
            else ci1 = ci"
      using update_data_cases[OF Cons.prems(1), of c f m] by blast
    have all: "list_all (\<lambda>p. p < f) seen = (ci_last_updated ci < f)"
      using Cons.prems(3,4) by (fastforce simp: list_all_iff)
    show ?thesis
    proof (cases "ci_last_updated ci < f")
      case True
      have "\<exists>ci'. run_calls ci1 calls = Inr ci' \<and>
           length (ci_stored_data ci') =
             length (ci_stored_data ci1) + count_increasing (f # seen) (alive_frames calls) +
             parent_entry ci1 calls"
        using g1 d1 c1 True Cons.prems by (intro Cons.IH) auto
      then show ?thesis
        using u UpdateData c1 True Cons.prems(2) all parent_entry_cong[OF p1, of calls]
        by (auto simp: parent_entry_simps)
    next
      case False
      then have eq: "ci1 = ci" using c1 by simp
      have "\<exists>ci'. run_calls ci calls = Inr ci' \<and>
           length (ci_stored_data ci') =
             length (ci_stored_data ci) + count_increasing (f # seen) (alive_frames calls) +
             parent_entry ci calls"
        using False Cons.prems by (intro Cons.IH) auto
      then show ?thesis using u UpdateData eq False all by (auto simp: parent_entry_simps)
    qed
  next
    case (Kill d)
    have "\<exists>ci'. run_calls (kill ci d) calls = Inr ci' \<and>
      length (ci_stored_data ci') = length (ci_stored_data (kill ci d)) + parent_entry (kill ci d) calls"
      using Cons.prems(1) by (intro run_calls_dead) (simp_all add: kill_fields)
    then show ?thesis
      using Kill parent_entry_cong[of "kill ci d" ci calls]
      by (simp add: kill_fields parent_entry_simps)
  next
    case (SetParent c)
    obtain ci1 where u: "set_parent ci c = Inr ci1" and g1: "good_observer ci1"
      and d1: "ci_is_dead ci1 = ci_is_dead ci" and t1: "ci_last_updated ci1 = ci_last_updated ci"
      and p1: "ci_has_parent ci1"
      and l1: "length (ci_stored_data ci1) =
                 length (ci_stored_data ci) + (if ci_has_parent ci then 0 else 1)"
      using set_parent_cases[OF Cons.prems(1), of c] by blast
    have "\<exists>ci'. run_calls ci1 calls = Inr ci' \<and>
           length (ci_stored_data ci') =
             length (ci_stored_data ci1) + count_increasing seen (alive_frames calls) +
             parent_entry ci1 calls"
      using g1 d1 t1 Cons.prems by (intro Cons.IH) simp_all
    then show ?thesis
      using SetParent u l1 parent_entry_done[OF p1, of calls] by (auto simp: parent_entry_simps)
  next
    case (AddMonomers c n m)
    obtain ci1 where u: "add_monomers ci c n m = Inr ci1" and g1: "good_observer ci1"
      and d1: "ci_is_dead ci1 = ci_is_dead ci" and t1: "ci_last_updated ci1 = ci_last_updated ci"
      and p1: "ci_has_parent ci1 = ci_has_parent ci"
      and s1: "ci_stored_data ci1 = ci_stored_data ci"
      using add_monomers_cases[OF Cons.prems(1), of c n m] by blast
    have "\<exists>ci'. run_calls ci1 calls = Inr ci' \<and>
           length (ci_stored_data ci') =
             length (ci_stored_data ci1) + count_increasing seen (alive_frames calls) +
             parent_entry ci1 calls"
      using g1 d1 t1 Cons.prems by (intro Cons.IH) simp_all
    then show ?thesis
      using AddMonomers u s1 parent_entry_cong[OF p1, of calls] by (simp add: parent_entry_simps)
  next
    case (RemoveMonomers c n)
    obtain ci1 where u: "remove_monomers ci c n = Inr ci1" and g1: "good_observer ci1"
      and d1: "ci_is_dead ci1 = ci_is_dead ci" and t1: "ci_last_updated ci1 = ci_last_updated ci"
      and p1: "ci_has_parent ci1 = ci_has_parent ci"
      and s1: "ci_stored_data ci1 = ci_stored_data ci"
      using remove_monomers_cases[OF Cons.prems(1), of c n] by blast
    have "\<exists>ci'. run_calls ci1 calls = Inr ci' \<and>
           length (ci_stored_data ci') =
             length (ci_stored_data ci1) + count_increasing seen (alive_frames calls) +
             parent_entry ci1 calls"
      using g1 d1 t1 Cons.prems by (intro Cons.IH) simp_all
    then show ?thesis
      using RemoveMonomers u s1 parent_entry_cong[OF p1, of calls]
      by (simp add: parent_entry_simps)
  qed
qed

text \<open>
  Claim C3: for every cluster record and every sequence of \<^verbatim>\<open>update_data\<close> calls, a call
  whose frame number is not above the last recorded one appends nothing, and at any point
  the length of the stored data is the number of strictly increasing frame numbers passed
  to \<^verbatim>\<open>update_data\<close> while the record was alive, the constructor's recording counted. The
  first part holds. The count misses the entry that \<^verbatim>\<open>set_parent\<close> prepends. What holds
  instead: let a record be constructed at a frame \<open>f0 \<ge> 0\<close> (frame numbers are non-negative,
  \<open>-1\<close> being the record's mark for no frame) with an observer of recognized observables,
  and let it receive any sequence of \<^verbatim>\<open>update_data\<close>, \<^verbatim>\<open>kill\<close>, \<^verbatim>\<open>set_parent\<close>,
  \<^verbatim>\<open>add_monomers\<close> and \<^verbatim>\<open>remove_monomers\<close> calls. Then all calls return, the stored data has
  one entry for \<open>f0\<close>, one for each frame number passed to \<^verbatim>\<open>update_data\<close> before the first
  \<^verbatim>\<open>kill\<close> that is greater than all frame numbers before it, and one more if \<^verbatim>\<open>set_parent\<close>
  was called; and a further \<^verbatim>\<open>update_data\<close> with a frame number up to the last recorded
  one returns the record as it is.
\<close>

theorem update_data_monotonic:
  assumes "set (get_observables ob) \<subseteq> recognized_observables" and "0 \<le> f0"
  shows "\<exists>ci0 ci. ClusterInfo_init c0 f0 m0 ob = Inr ci0 \<and> run_calls ci0 calls = Inr ci \<and>
           length (get_data ci) =
             count_increasing [] (f0 # alive_frames calls) + (if parent_calls calls then 1 else 0) \<and>
           (\<forall>c f m. f \<le> ci_last_updated ci \<longrightarrow> update_data ci c f m = Inr ci)"
proof -
  let ?ci = "\<lparr> ci_birth_frame = f0, ci_death_frame = - 1, ci_last_updated = - 1,
               ci_lifetime = - 1, ci_is_dead = False, ci_has_parent = False,
               ci_observer = ob, ci_stored_data = [],
               ci_from_monomer = [], ci_to_monomer = [] \<rparr>"
  have g: "good_observer ?ci" using assms(1) by (simp add: good_observer_def)
  obtain ci1 where u: "update_data ?ci c0 f0 m0 = Inr ci1" and g1: "good_observer ci1"
      and d1: "ci_is_dead ci1 = ci_is_dead ?ci" and p1: "ci_has_parent ci1 = ci_has_parent ?ci"
      and c1: "if ci_last_updated ?ci < f0 \<and> \<not> ci_is_dead ?ci
            then length (ci_stored_data ci1) = Suc (length (ci_stored_data ?ci)) \<and>
                 ci_last_updated ci1 = f0
            else ci1 = ?ci"
    using update_data_cases[OF g, of c0 f0 m0] by blast
  define ci0 where "ci0 = ci1\<lparr>ci_from_monomer := [], ci_to_monomer := []\<rparr>"
  have init: "ClusterInfo_init c0 f0 m0 ob = Inr ci0"
    using u by (simp add: ClusterInfo_init_def ci0_def)
  have len0: "length (ci_stored_data ci0) = 1" and last0: "ci_last_updated ci0 = f0"
    and alive0: "\<not> ci_is_dead ci0" and g0: "good_observer ci0"
    and par0: "\<not> ci_has_parent ci0"
    using c1 d1 g1 p1 assms(2) by (auto simp: ci0_def good_observer_def)
  obtain ci where r: "run_calls ci0 calls = Inr ci"
    and l: "length (ci_stored_data ci) =
              length (ci_stored_data ci0) + count_increasing [f0] (alive_frames calls) +
              parent_entry ci0 calls"
    using run_calls_length[OF g0 alive0, of "[f0]" calls] last0 by auto
  have "\<forall>c f m. f \<le> ci_last_updated ci \<longrightarrow> update_data ci c f m = Inr ci"
    by (simp add: update_data_def)
  then show ?thesis using init r l len0 par0 by (auto simp: get_data_def parent_entry_def)
qed

lemma test_observer_good: "set (get_observables test_observer) \<subseteq> recognized_observables"
  by (simp add: test_observer_def init_test_set_def get_observables_def recognized_observables_def)

lemma unknown_observer_bad:
  "\<not> set (get_observables unknown_observer) \<subseteq> recognized_observables"
  by (simp add: unknown_observer_def add_observable_def Observer_init_def get_observables_def
      recognized_observables_def)

text \<open>
  A record born at frame 0 that is offered the frames 1, 1, 0, 4 (with monomer events in
  between), is killed, and is offered frame 7: three entries, for the frames 0, 1 and 4.
\<close>

theorem update_data_monotonic_witness:
  "\<exists>ci0 ci. ClusterInfo_init example_cluster 0 1 test_observer = Inr ci0 \<and>
      run_calls ci0 example_calls = Inr ci \<and> length (get_data ci) = 3"
proof -
  have "count_increasing [] (0 # alive_frames example_calls) = 3"
    "\<not> parent_calls example_calls"
    by (simp_all add: example_calls_def)
  then show ?thesis
    using update_data_monotonic[of test_observer 0 example_cluster 1 example_calls]
      test_observer_good
    by fastforce
qed

text \<open>
  Against claim C3 as stated: a record born at frame 0 on which \<^verbatim>\<open>set_parent\<close> is called
  stores two entries, and one frame number has been passed to \<^verbatim>\<open>update_data\<close>.
\<close>

theorem set_parent_extra_entry_counterexample:
  "\<exists>ci0 ci. ClusterInfo_init example_cluster 0 1 test_observer = Inr ci0 \<and>
      run_calls ci0 [SetParent example_cluster] = Inr ci \<and>
      length (get_data ci) = 2 \<and>
      count_increasing [] (0 # alive_frames [SetParent example_cluster]) = 1"
  by (simp add: ClusterInfo_init_def update_data_def set_parent_def compute_coordinate_def
      test_observer_def init_test_set_def Observer_init_def get_observables_def get_data_def)

text \<open>
  Claim C8: when the observable set of a record's observer holds a name other than
  \<^verbatim>\<open>"num_bodies"\<close> and \<^verbatim>\<open>"positions"\<close>, computing a snapshot raises an error, in
  \<^verbatim>\<open>update_data\<close> (when the frame is new and the record alive), \<^verbatim>\<open>set_parent\<close> (when the
  record has no parent yet), \<^verbatim>\<open>add_monomers\<close> and \<^verbatim>\<open>remove_monomers\<close>; with recognized
  names only, none of them raises. The error is the \<^verbatim>\<open>TypeError\<close> of raising a string.
\<close>

theorem unrecognized_observable_raises:
  "(\<not> set (get_observables (ci_observer ci)) \<subseteq> recognized_observables \<longrightarrow>
      compute_coordinate ci c = Inl TypeError \<and>
      (ci_last_updated ci < f \<and> \<not> ci_is_dead ci \<longrightarrow> update_data ci c f m = Inl TypeError) \<and>
      (\<not> ci_has_parent ci \<longrightarrow> set_parent ci c = Inl TypeError) \<and>
      add_monomers ci c n m = Inl TypeError \<and>
      remove_monomers ci c n = Inl TypeError) \<and>
   (set (get_observables (ci_observer ci)) \<subseteq> recognized_observables \<longrightarrow>
      (\<exists>d. compute_coordinate ci c = Inr d) \<and>
      (\<exists>ci'. update_data ci c f m = Inr ci') \<and>
      (\<exists>ci'. set_parent ci c = Inr ci') \<and>
      (\<exists>ci'. add_monomers ci c n m = Inr ci') \<and>
      (\<exists>ci'. remove_monomers ci c n = Inr ci'))"
proof (intro conjI impI)
  assume bad: "\<not> set (get_observables (ci_observer ci)) \<subseteq> recognized_observables"
  note e = compute_coordinate_bad[OF bad, of c]
  show "compute_coordinate ci c = Inl TypeError" by (rule e)
  show "add_monomers ci c n m = Inl TypeError" by (simp add: add_monomers_def e)
  show "remove_monomers ci c n = Inl TypeError" by (simp add: remove_monomers_def e)
  { assume "ci_last_updated ci < f \<and> \<not> ci_is_dead ci"
    then show "update_data ci c f m = Inl TypeError" by (simp add: update_data_def e) }
  { assume "\<not> ci_has_parent ci"
    then show "set_parent ci c = Inl TypeError" by (simp add: set_parent_def e) }
next
  assume good: "set (get_observables (ci_observer ci)) \<subseteq> recognized_observables"
  then obtain d where d: "compute_coordinate ci c = Inr d"
    using compute_coordinate_good by blast
  show "\<exists>d. compute_coordinate ci c = Inr d" using d by blast
  show "\<exists>ci'. update_data ci c f m = Inr ci'" by (simp add: update_data_def d)
  show "\<exists>ci'. set_parent ci c = Inr ci'" by (simp add: set_parent_def d)
  show "\<exists>ci'. add_monomers ci c n m = Inr ci'" by (simp add: add_monomers_def d)
  show "\<exists>ci'. remove_monomers ci c n = Inr ci'" by (simp add: remove_monomers_def d)
qed

text \<open>An observer with the unknown name \<^verbatim>\<open>"num_bonds"\<close>, and the test observer.\<close>

theorem unrecognized_observable_raises_witness:
  "update_data (blank_info unknown_observer) example_cluster 0 1 = Inl TypeError \<and>
   set_parent (blank_info unknown_observer) example_cluster = Inl TypeError \<and>
   add_monomers (blank_info unknown_observer) example_cluster 2 1 = Inl TypeError \<and>
   remove_monomers (blank_info unknown_observer) example_cluster 2 = Inl TypeError \<and>
   (\<exists>ci'. update_data (blank_info test_observer) example_cluster 0 1 = Inr ci') \<and>
   (\<exists>ci'. set_parent (blank_info test_observer) example_cluster = Inr ci') \<and>
   (\<exists>ci'. add_monomers (blank_info test_observer) example_cluster 2 1 = Inr ci') \<and>
   (\<exists>ci'. remove_monomers (blank_info test_observer) example_cluster 2 = Inr ci')"
  using unrecognized_observable_raises[of "blank_info unknown_observer" example_cluster 0 1 2]
    unrecognized_observable_raises[of "blank_info test_observer" example_cluster 0 1 2]
    unknown_observer_bad test_observer_good
  by (simp add: blank_info_def)

lemma init_good:
  assumes "set (get_observables ob) \<subseteq> recognized_observables"
  shows "\<exists>ci. ClusterInfo_init c f m ob = Inr ci \<and> ci_birth_frame ci = f \<and> \<not> ci_is_dead ci \<and>
           ci_observer ci = ob"
proof -
  let ?ci = "\<lparr> ci_birth_frame = f, ci_death_frame = - 1, ci_last_updated = - 1,
               ci_lifetime = - 1, ci_is_dead = False, ci_has_parent = False,
               ci_observer = ob, ci_stored_data = [],
               ci_from_monomer = [], ci_to_monomer = [] \<rparr>"
  obtain d where "compute_coordinate ?ci c = Inr d"
    using compute_coordinate_good[of ?ci c] assms by auto
  then show ?thesis
    by (simp add: ClusterInfo_init_def update_data_def)
qed

lemma call_frames:
  assumes "good_observer ci"
  shows "\<exists>ci'. run_calls ci [call] = Inr ci' \<and> ci_observer ci' = ci_observer ci \<and>
           ci_birth_frame ci' = ci_birth_frame ci \<and> (ci_is_dead ci \<longrightarrow> ci_is_dead ci') \<and>
           ci_death_frame ci' = last_kill (ci_death_frame ci) [call] \<and>
           (ci_lifetime ci = ci_death_frame ci - ci_birth_frame ci \<longrightarrow>
              ci_lifetime ci' = ci_death_frame ci' - ci_birth_frame ci')"
proof -
  have cc: "\<exists>x. compute_coordinate ci c = Inr x" for c
    using assms compute_coordinate_good unfolding good_observer_def by blast
  show ?thesis
  proof (cases call)
    case (UpdateData c f m)
    obtain x where "compute_coordinate ci c = Inr x" using cc by blast
    then show ?thesis using UpdateData by (simp add: update_data_def)
  next
    case (Kill d)
    then show ?thesis by (simp add: kill_def set_lifetime_def)
  next
    case (SetParent c)
    obtain x where "compute_coordinate ci c = Inr x" using cc by blast
    then show ?thesis using SetParent by (simp add: set_parent_def)
  next
    case (AddMonomers c n m)
    obtain x where "compute_coordinate ci c = Inr x" using cc by blast
    then show ?thesis using AddMonomers by (simp add: add_monomers_def)
  next
    case (RemoveMonomers c n)
    obtain x where "compute_coordinate ci c = Inr x" using cc by blast
    then show ?thesis using RemoveMonomers by (simp add: remove_monomers_def)
  qed
qed

lemma run_calls_Cons:
  "run_calls ci (call # calls) =
     (case run_calls ci [call] of Inl e \<Rightarrow> Inl e | Inr ci' \<Rightarrow> run_calls ci' calls)"
  by (cases call) (simp_all split: sum.splits)

lemma last_kill_Cons: "last_kill d (call # calls) = last_kill (last_kill d [call]) calls"
  by (cases call) simp_all

lemma run_calls_frames:
  "good_observer ci \<Longrightarrow>
   \<exists>ci'. run_calls ci calls = Inr ci' \<and> ci_observer ci' = ci_observer ci \<and>
     ci_birth_frame ci' = ci_birth_frame ci \<and> (ci_is_dead ci \<longrightarrow> ci_is_dead ci') \<and>
     ci_death_frame ci' = last_kill (ci_death_frame ci) calls \<and>
     (ci_lifetime ci = ci_death_frame ci - ci_birth_frame ci \<longrightarrow>
        ci_lifetime ci' = ci_death_frame ci' - ci_birth_frame ci')"
proof (induction calls arbitrary: ci)
  case Nil
  then show ?case by simp
next
  case (Cons call calls)
  obtain ci1 where s: "run_calls ci [call] = Inr ci1" and o: "ci_observer ci1 = ci_observer ci"
    and b: "ci_birth_frame ci1 = ci_birth_frame ci" and a: "ci_is_dead ci \<longrightarrow> ci_is_dead ci1"
    and d: "ci_death_frame ci1 = last_kill (ci_death_frame ci) [call]"
    and l: "ci_lifetime ci = ci_death_frame ci - ci_birth_frame ci \<longrightarrow>
              ci_lifetime ci1 = ci_death_frame ci1 - ci_birth_frame ci1"
    using call_frames[OF Cons.prems, of call] by blast
  have "good_observer ci1" using Cons.prems o by (simp add: good_observer_def)
  then obtain ci2 where s2: "run_calls ci1 calls = Inr ci2"
    and o2: "ci_observer ci2 = ci_observer ci1"
    and b2: "ci_birth_frame ci2 = ci_birth_frame ci1" and a2: "ci_is_dead ci1 \<longrightarrow> ci_is_dead ci2"
    and d2: "ci_death_frame ci2 = last_kill (ci_death_frame ci1) calls"
    and l2: "ci_lifetime ci1 = ci_death_frame ci1 - ci_birth_frame ci1 \<longrightarrow>
              ci_lifetime ci2 = ci_death_frame ci2 - ci_birth_frame ci2"
    using Cons.IH[of ci1] by blast
  have r: "run_calls ci (call # calls) = Inr ci2"
    using s s2 by (simp add: run_calls_Cons[of ci call calls])
  have dd: "ci_death_frame ci2 = last_kill (ci_death_frame ci) (call # calls)"
    using d d2 by (simp add: last_kill_Cons[of _ call calls])
  show ?case
  proof (intro exI conjI)
    show "run_calls ci (call # calls) = Inr ci2" by (rule r)
    show "ci_observer ci2 = ci_observer ci" using o o2 by simp
    show "ci_birth_frame ci2 = ci_birth_frame ci" using b b2 by simp
    show "ci_is_dead ci \<longrightarrow> ci_is_dead ci2" using a a2 by simp
    show "ci_death_frame ci2 = last_kill (ci_death_frame ci) (call # calls)" by (rule dd)
    show "ci_lifetime ci = ci_death_frame ci - ci_birth_frame ci \<longrightarrow>
            ci_lifetime ci2 = ci_death_frame ci2 - ci_birth_frame ci2"
      using l l2 by simp
  qed
qed

lemma kill_frames:
  "ci_observer (kill ci d) = ci_observer ci" "ci_birth_frame (kill ci d) = ci_birth_frame ci"
  "ci_death_frame (kill ci d) = d" "ci_lifetime (kill ci d) = d - ci_birth_frame ci"
  by (simp_all add: kill_def set_lifetime_def)

text \<open>
  Claim C4: a record constructed at frame \<open>f\<close> has birth frame \<open>f\<close> and is not dead; after
  \<^verbatim>\<open>kill(d)\<close> its lifetime is \<open>d - f\<close>, it is dead, and no later \<^verbatim>\<open>update_data\<close>,
  \<^verbatim>\<open>add_monomers\<close> or \<^verbatim>\<open>remove_monomers\<close> changes its state. The last part holds for
  \<^verbatim>\<open>update_data\<close> only, the one method that tests the dead flag. What holds instead, for an
  observer of recognized observables and any calls of \<^verbatim>\<open>update_data\<close>, \<^verbatim>\<open>kill\<close>,
  \<^verbatim>\<open>set_parent\<close>, \<^verbatim>\<open>add_monomers\<close> and \<^verbatim>\<open>remove_monomers\<close> between the construction and
  \<^verbatim>\<open>kill(d)\<close> and after it: the birth frame stays \<open>f\<close>; right after \<^verbatim>\<open>kill(d)\<close> the record is
  dead with lifetime \<open>d - f\<close>; after the later calls it is still dead, its death frame is that
  of the most recent \<^verbatim>\<open>kill\<close> and its lifetime is that death frame minus \<open>f\<close>; every
  \<^verbatim>\<open>update_data\<close> then returns it unchanged, and \<^verbatim>\<open>add_monomers\<close> and \<^verbatim>\<open>remove_monomers\<close>
  change nothing but their own log, to which each appends one entry.
\<close>

theorem kill_freezes_time_series:
  assumes "set (get_observables ob) \<subseteq> recognized_observables"
  shows "\<exists>ci0. ClusterInfo_init c f m ob = Inr ci0 \<and> ci_birth_frame ci0 = f \<and> \<not> is_dead ci0 \<and>
           (\<exists>ci1. run_calls ci0 earlier = Inr ci1 \<and> ci_birth_frame ci1 = f \<and>
              get_lifetime (kill ci1 d) = d - f \<and> is_dead (kill ci1 d) \<and>
              (\<exists>ci2. run_calls (kill ci1 d) later = Inr ci2 \<and> is_dead ci2 \<and>
                 ci_birth_frame ci2 = f \<and> ci_death_frame ci2 = last_kill d later \<and>
                 get_lifetime ci2 = last_kill d later - f \<and>
                 (\<forall>c' f' m'. update_data ci2 c' f' m' = Inr ci2) \<and>
                 (\<forall>c' n m'. \<exists>x. add_monomers ci2 c' n m' =
                     Inr (ci2\<lparr>ci_from_monomer := ci_from_monomer ci2 @ [(x, n)]\<rparr>)) \<and>
                 (\<forall>c' n. \<exists>x. remove_monomers ci2 c' n =
                     Inr (ci2\<lparr>ci_to_monomer := ci_to_monomer ci2 @ [(x, n)]\<rparr>))))"
proof -
  obtain ci0 where i: "ClusterInfo_init c f m ob = Inr ci0" and b0: "ci_birth_frame ci0 = f"
    and a0: "\<not> ci_is_dead ci0" and o0: "ci_observer ci0 = ob"
    using init_good[OF assms] by blast
  have g0: "good_observer ci0" using assms o0 by (simp add: good_observer_def)
  obtain ci1 where r1: "run_calls ci0 earlier = Inr ci1" and o1: "ci_observer ci1 = ob"
    and b1: "ci_birth_frame ci1 = f"
    using run_calls_frames[OF g0, of earlier] o0 b0 by auto
  let ?k = "kill ci1 d"
  have gk: "good_observer ?k" using assms o1 by (simp add: good_observer_def kill_frames)
  have lk: "ci_lifetime ?k = ci_death_frame ?k - ci_birth_frame ?k" by (simp add: kill_frames)
  have dk: "ci_is_dead ?k" by (simp add: kill_def)
  obtain ci2 where r2: "run_calls ?k later = Inr ci2" and o2: "ci_observer ci2 = ob"
    and b2: "ci_birth_frame ci2 = f" and a2: "ci_is_dead ci2"
    and d2: "ci_death_frame ci2 = last_kill d later"
    and l2: "ci_lifetime ci2 = ci_death_frame ci2 - ci_birth_frame ci2"
    using run_calls_frames[OF gk, of later] lk dk o1 b1 by (auto simp: kill_frames)
  have cc: "\<exists>x. compute_coordinate ci2 c' = Inr x" for c'
    using compute_coordinate_good[of ci2 c'] assms o2 by simp
  have ud: "update_data ci2 c' f' m' = Inr ci2" for c' f' m'
    using a2 by (simp add: update_data_def)
  have am: "\<exists>x. add_monomers ci2 c' n m' =
               Inr (ci2\<lparr>ci_from_monomer := ci_from_monomer ci2 @ [(x, n)]\<rparr>)" for c' n m'
  proof -
    obtain x where "compute_coordinate ci2 c' = Inr x" using cc by blast
    then show ?thesis by (auto simp: add_monomers_def)
  qed
  have rm: "\<exists>x. remove_monomers ci2 c' n =
               Inr (ci2\<lparr>ci_to_monomer := ci_to_monomer ci2 @ [(x, n)]\<rparr>)" for c' n
  proof -
    obtain x where "compute_coordinate ci2 c' = Inr x" using cc by blast
    then show ?thesis by (auto simp: remove_monomers_def)
  qed
  have p2: "run_calls ?k later = Inr ci2 \<and> is_dead ci2 \<and>
                 ci_birth_frame ci2 = f \<and> ci_death_frame ci2 = last_kill d later \<and>
                 get_lifetime ci2 = last_kill d later - f \<and>
                 (\<forall>c' f' m'. update_data ci2 c' f' m' = Inr ci2) \<and>
                 (\<forall>c' n m'. \<exists>x. add_monomers ci2 c' n m' =
                     Inr (ci2\<lparr>ci_from_monomer := ci_from_monomer ci2 @ [(x, n)]\<rparr>)) \<and>
                 (\<forall>c' n. \<exists>x. remove_monomers ci2 c' n =
                     Inr (ci2\<lparr>ci_to_monomer := ci_to_monomer ci2 @ [(x, n)]\<rparr>))"
    using r2 a2 b2 d2 l2 ud am rm by (simp add: is_dead_def get_lifetime_def)
  have p1: "run_calls ci0 earlier = Inr ci1 \<and> ci_birth_frame ci1 = f \<and>
              get_lifetime ?k = d - f \<and> is_dead ?k"
    using r1 b1 dk by (simp add: get_lifetime_def is_dead_def kill_frames)
  have p0: "ClusterInfo_init c f m ob = Inr ci0 \<and> ci_birth_frame ci0 = f \<and> \<not> is_dead ci0"
    using i b0 a0 by (simp add: is_dead_def)
  from p0 p1 p2 show ?thesis by blast
qed

text \<open>
  Born at frame 2, updated at frame 3, killed at frame 9: lifetime 7, also after a later
  \<^verbatim>\<open>add_monomers\<close>; a second \<^verbatim>\<open>kill\<close> at frame 12 makes it 10.
\<close>

theorem kill_freezes_time_series_witness:
  "\<exists>ci0 ci1 ci2 ci3. ClusterInfo_init example_cluster 2 1 test_observer = Inr ci0 \<and>
     ci_birth_frame ci0 = 2 \<and> \<not> is_dead ci0 \<and>
     run_calls ci0 [UpdateData example_cluster 3 1] = Inr ci1 \<and>
     get_lifetime (kill ci1 9) = 7 \<and> is_dead (kill ci1 9) \<and>
     run_calls (kill ci1 9) [AddMonomers example_cluster 1 1] = Inr ci2 \<and>
     is_dead ci2 \<and> ci_birth_frame ci2 = 2 \<and> get_lifetime ci2 = 7 \<and>
     update_data ci2 example_cluster 10 1 = Inr ci2 \<and>
     run_calls (kill ci1 9) [AddMonomers example_cluster 1 1, Kill 12] = Inr ci3 \<and>
     is_dead ci3 \<and> get_lifetime ci3 = 10"
proof -
  note t = kill_freezes_time_series[OF test_observer_good, where c = example_cluster
      and f = 2 and m = 1 and earlier = "[UpdateData example_cluster 3 1]" and d = 9]
  obtain ci0 ci1 ci2 where a: "ClusterInfo_init example_cluster 2 1 test_observer = Inr ci0"
    "ci_birth_frame ci0 = 2" "\<not> is_dead ci0"
    "run_calls ci0 [UpdateData example_cluster 3 1] = Inr ci1"
    "get_lifetime (kill ci1 9) = 9 - 2" "is_dead (kill ci1 9)"
    "run_calls (kill ci1 9) [AddMonomers example_cluster 1 1] = Inr ci2"
    "is_dead ci2" "ci_birth_frame ci2 = 2"
    "get_lifetime ci2 = last_kill 9 [AddMonomers example_cluster 1 1] - 2"
    "\<forall>c' f' m'. update_data ci2 c' f' m' = Inr ci2"
    using t[where later = "[AddMonomers example_cluster 1 1]"] by blast
  obtain ci0' ci1' ci3 where b: "ClusterInfo_init example_cluster 2 1 test_observer = Inr ci0'"
    "run_calls ci0' [UpdateData example_cluster 3 1] = Inr ci1'"
    "run_calls (kill ci1' 9) [AddMonomers example_cluster 1 1, Kill 12] = Inr ci3"
    "is_dead ci3"
    "get_lifetime ci3 = last_kill 9 [AddMonomers example_cluster 1 1, Kill 12] - 2"
    using t[where later = "[AddMonomers example_cluster 1 1, Kill 12]"] by blast
  have e: "ci0' = ci0" using a(1) b(1) by simp
  have e1: "ci1' = ci1" using a(4) b(2) e by simp
  have u: "update_data ci2 example_cluster 10 1 = Inr ci2" using a(11) by blast
  show ?thesis
  proof (intro exI conjI)
    show "ClusterInfo_init example_cluster 2 1 test_observer = Inr ci0" by (rule a(1))
    show "run_calls ci0 [UpdateData example_cluster 3 1] = Inr ci1" by (rule a(4))
    show "run_calls (kill ci1 9) [AddMonomers example_cluster 1 1] = Inr ci2" by (rule a(7))
    show "run_calls (kill ci1 9) [AddMonomers example_cluster 1 1, Kill 12] = Inr ci3"
      using b(3) e1 by simp
    show "update_data ci2 example_cluster 10 1 = Inr ci2" by (rule u)
    show "get_lifetime (kill ci1 9) = 7" using a(5) by simp
    show "get_lifetime ci2 = 7" using a(10) by simp
    show "get_lifetime ci3 = 10" using b(5) by simp
  qed (simp_all only: a b not_False_eq_True)
qed

text \<open>
  Against claim C4 as stated: \<^verbatim>\<open>add_monomers\<close> on a killed record changes its monomer gain
  log.
\<close>

theorem add_monomers_after_kill_counterexample:
  "\<exists>ci ci'. ClusterInfo_init example_cluster 2 1 test_observer = Inr ci \<and>
     is_dead (kill ci 9) \<and>
     add_monomers (kill ci 9) example_cluster 1 1 = Inr ci' \<and>
     get_monomer_gain_data ci' \<noteq> get_monomer_gain_data (kill ci 9)"
  by (simp add: ClusterInfo_init_def update_data_def compute_coordinate_def test_observer_def
      init_test_set_def Observer_init_def get_observables_def add_monomers_def kill_def
      set_lifetime_def is_dead_def get_monomer_gain_data_def)

section \<open>Properties of the grouping\<close>

lemma total_states_pos: "bd \<noteq> [] \<Longrightarrow> 0 < total_states bd"
  by (simp add: total_states_def)

lemma adj_key:
  assumes "fst ` set bd = {0 ..< total_states bd}" "b \<in> set (adj bd a)"
  shows "a < total_states bd"
proof -
  have "map_of bd a \<noteq> None" using assms(2) by (cases "map_of bd a") (simp_all add: adj_def)
  then have "a \<in> fst ` set bd" by (simp add: map_of_eq_None_iff)
  then show ?thesis using assms(1) by simp
qed

lemma bonds_sym: "bonds_ok bd \<Longrightarrow> (a, b) \<in> bonds bd \<Longrightarrow> (b, a) \<in> bonds bd"
  unfolding bonds_ok_def bonds_def using adj_key by fastforce

lemma member_key: "bonds_ok bd \<Longrightarrow> m \<in> set (adj bd a) \<Longrightarrow> m < total_states bd"
proof -
  assume ok: "bonds_ok bd" and m: "m \<in> set (adj bd a)"
  have "(a, m) \<in> bonds bd" using m by (simp add: bonds_def)
  then have "(m, a) \<in> bonds bd" using ok bonds_sym by blast
  then have "a \<in> set (adj bd m)" by (simp add: bonds_def)
  then show ?thesis using ok adj_key unfolding bonds_ok_def by blast
qed

lemma no_self: "bonds_ok bd \<Longrightarrow> m \<in> set (adj bd a) \<Longrightarrow> m \<noteq> a"
  using adj_key[of bd m a] unfolding bonds_ok_def by blast

lemma concat_upd_last:
  "G \<noteq> [] \<Longrightarrow> concat (G[length G - 1 := last G @ [m]]) = concat G @ [m]"
  by (induction G rule: rev_induct) simp_all

lemma last_upd_last: "G \<noteq> [] \<Longrightarrow> last (G[length G - 1 := g]) = g"
  by (induction G rule: rev_induct) simp_all

lemma in_concat_nth: "x \<in> set (concat G) \<longleftrightarrow> (\<exists>k < length G. x \<in> set (G ! k))"
proof
  assume "x \<in> set (concat G)"
  then obtain g where "g \<in> set G" "x \<in> set g" by auto
  then show "\<exists>k < length G. x \<in> set (G ! k)" by (metis in_set_conv_nth)
next
  assume "\<exists>k < length G. x \<in> set (G ! k)"
  then show "x \<in> set (concat G)" by (metis UN_I nth_mem set_concat)
qed

lemma in_concatD: "x \<in> set (concat G) \<Longrightarrow> \<exists>k < length G. x \<in> set (G ! k)"
  by (simp only: in_concat_nth)

lemma in_concatI: "k < length G \<Longrightarrow> x \<in> set (G ! k) \<Longrightarrow> x \<in> set (concat G)"
  unfolding in_concat_nth by (intro exI conjI)

lemma first_unassigned_Some:
  "first_unassigned tg = Some u \<Longrightarrow> u < length tg \<and> tg ! u = - 1"
  by (induction tg arbitrary: u) (auto split: if_splits)

lemma first_unassigned_ex:
  "x < length tg \<Longrightarrow> tg ! x = - 1 \<Longrightarrow> \<exists>u. first_unassigned tg = Some u"
  by (induction tg arbitrary: x) (auto simp: nth_Cons split: nat.splits)

lemma group_invD:
  assumes "group_inv bd G tg q s"
  shows "G \<noteq> []" "[] \<notin> set G" "distinct (concat G)"
    "set (concat G) \<subseteq> {0 ..< total_states bd}" "length tg = total_states bd"
    "\<And>k x. k < length G \<Longrightarrow> x \<in> set (G ! k) \<Longrightarrow> tg ! x = int k"
    "\<And>x. x < total_states bd \<Longrightarrow> x \<notin> set (concat G) \<Longrightarrow> tg ! x = - 1"
    "distinct (s @ q)" "set s \<union> set q = set (concat G)" "set q \<subseteq> set (last G)"
    "\<And>k x. k < length G \<Longrightarrow> x \<in> set (G ! k) \<Longrightarrow> x \<in> set s \<Longrightarrow> set (adj bd x) \<subseteq> set (G ! k)"
    "\<And>g x. g \<in> set G \<Longrightarrow> x \<in> set g \<Longrightarrow> reachable bd (hd g) x"
  using assms unfolding group_inv_def by blast+

lemma same_group:
  assumes "group_inv bd G tg q s" "k < length G" "x \<in> set (G ! k)" "j < length G" "x \<in> set (G ! j)"
  shows "k = j"
  using group_invD(6)[OF assms(1,2,3)] group_invD(6)[OF assms(1,4,5)] by simp

lemma member_fresh:
  assumes ok: "bonds_ok bd" and inv: "group_inv bd G tg (bod # qq) s"
    and m: "m \<in> set (adj bd bod)" and fresh: "m \<notin> set (last G)"
  shows "m \<notin> set (concat G)"
proof
  assume "m \<in> set (concat G)"
  then have "\<exists>k < length G. m \<in> set (G ! k)" by (rule in_concatD)
  then obtain k where k: "k < length G" "m \<in> set (G ! k)" by blast
  note d = group_invD[OF inv]
  have K: "length G - 1 < length G" "last G = G ! (length G - 1)"
    using d(1) by (simp_all add: last_conv_nth)
  have bodK: "bod \<in> set (G ! (length G - 1))" using d(10) K(2) by simp
  have "m \<noteq> bod" using no_self[OF ok m] .
  moreover have "m \<notin> set qq" using d(10) fresh by auto
  moreover have "m \<in> set s \<union> set (bod # qq)" using d(9) \<open>m \<in> set (concat G)\<close> by simp
  ultimately have ms: "m \<in> set s" by auto
  have "(bod, m) \<in> bonds bd" using m by (simp add: bonds_def)
  then have "bod \<in> set (adj bd m)" using bonds_sym[OF ok] by (simp add: bonds_def)
  then have "bod \<in> set (G ! k)" using d(11)[OF k ms] by auto
  then have "k = length G - 1" using same_group[OF inv k(1) _ K(1) bodK] by simp
  then show False using k(2) K(2) fresh by simp
qed

lemma inv_old_member:
  assumes ok: "bonds_ok bd" and inv: "group_inv bd G tg (bod # qq) s"
    and m: "m \<in> set (adj bd bod)" and old: "m \<in> set (last G)"
  shows "m \<in> set s \<or> m \<in> set qq"
proof -
  note d = group_invD[OF inv]
  have "last G \<in> set G" using d(1) by simp
  then have "m \<in> set (concat G)" using old by auto
  then have "m \<in> set s \<union> set (bod # qq)" using d(9) by simp
  then show ?thesis using no_self[OF ok m] by auto
qed

lemma inv_add_member:
  assumes ok: "bonds_ok bd" and inv: "group_inv bd G tg (bod # qq) s"
    and m: "m \<in> set (adj bd bod)" and fresh: "m \<notin> set (last G)"
  shows "m < length tg" "m \<notin> set s" "m \<notin> set qq"
    "group_inv bd (G[length G - 1 := last G @ [m]]) (tg[m := int (length G - 1)]) (bod # qq @ [m]) s"
proof -
  note d = group_invD[OF inv]
  let ?K = "length G - 1"
  let ?G = "G[?K := last G @ [m]]"
  let ?tg = "tg[m := int ?K]"
  have K: "?K < length G" "last G = G ! ?K" using d(1) by (simp_all add: last_conv_nth)
  have mN: "m < total_states bd" using member_key[OF ok m] .
  show ml: "m < length tg" using mN d(5) by simp
  have mc: "m \<notin> set (concat G)" using member_fresh[OF ok inv m fresh] .
  then have msq: "m \<notin> set s \<union> set (bod # qq)" using d(9) by simp
  show "m \<notin> set s" "m \<notin> set qq" using msq by auto
  have cc: "concat ?G = concat G @ [m]" using d(1) by (rule concat_upd_last)
  have lst: "last ?G = last G @ [m]" using d(1) by (rule last_upd_last)
  have nth: "?G ! k = (if k = ?K then last G @ [m] else G ! k)" if "k < length G" for k
    using that by (simp add: nth_list_update)
  have bodK: "bod \<in> set (last G)" using d(10) by simp
  have c1: "?G \<noteq> []" using d(1) by simp
  have c2: "[] \<notin> set ?G"
  proof
    assume "[] \<in> set ?G"
    then have "[] \<in> insert (last G @ [m]) (set G)"
      using set_update_subset_insert[of G ?K "last G @ [m]"] by blast
    then show False using d(2) by simp
  qed
  have c3: "distinct (concat ?G)" unfolding cc using d(3) mc by simp
  have c4: "set (concat ?G) \<subseteq> {0 ..< total_states bd}" unfolding cc using d(4) mN by simp
  have c5: "length ?tg = total_states bd" using d(5) by simp
  have c6: "?tg ! x = int k" if "k < length ?G" "x \<in> set (?G ! k)" for k x
  proof (cases "x = m")
    case True
    have kl: "k < length G" using that(1) by simp
    have "k = ?K"
    proof (rule ccontr)
      assume "k \<noteq> ?K"
      then have "x \<in> set (G ! k)" using that(2) nth[OF kl] by simp
      then have "x \<in> set (concat G)" using kl by (rule in_concatI[rotated])
      then show False using True mc by simp
    qed
    then show ?thesis using True ml by simp
  next
    case False
    have kl: "k < length G" using that(1) by simp
    have "x \<in> set (G ! k)" using that(2) nth[OF kl] False K(2) by (auto split: if_splits)
    then have "tg ! x = int k" using d(6)[OF kl] by simp
    then show ?thesis using False by simp
  qed
  have c7: "?tg ! x = - 1" if "x < total_states bd" "x \<notin> set (concat ?G)" for x
    using that d(7)[of x] unfolding cc by simp
  have c8: "distinct (s @ bod # qq @ [m])" using d(8) msq by simp
  have c9: "set s \<union> set (bod # qq @ [m]) = set (concat ?G)" unfolding cc using d(9) by auto
  have c10: "set (bod # qq @ [m]) \<subseteq> set (last ?G)" unfolding lst using d(10) by auto
  have c11: "set (adj bd x) \<subseteq> set (?G ! k)" if "k < length ?G" "x \<in> set (?G ! k)" "x \<in> set s" for k x
  proof -
    have kl: "k < length G" using that(1) by simp
    have "x \<noteq> m" using that(3) msq by auto
    then have xk: "x \<in> set (G ! k)" using that(2) nth[OF kl] K(2) by (auto split: if_splits)
    have "set (G ! k) \<subseteq> set (?G ! k)" using nth[OF kl] K(2) by auto
    then show ?thesis using d(11)[OF kl xk that(3)] by blast
  qed
  have c12: "reachable bd (hd g) x" if "g \<in> set ?G" "x \<in> set g" for g x
  proof -
    have "g \<in> insert (last G @ [m]) (set G)"
      using that(1) set_update_subset_insert[of G ?K "last G @ [m]"] by blast
    then show ?thesis
    proof
      assume g: "g = last G @ [m]"
      have lg1: "last G \<in> set G" using d(1) by simp
      then have lg2: "last G \<noteq> []" using d(2) by auto
      note lg = lg1 lg2
      have h: "hd g = hd (last G)" using g lg(2) by simp
      show ?thesis
      proof (cases "x = m")
        case True
        have "reachable bd (hd (last G)) bod" using d(12)[OF lg(1) bodK] .
        moreover have "(bod, m) \<in> bonds bd" using m by (simp add: bonds_def)
        ultimately show ?thesis unfolding reachable_def h True by (rule rtrancl_into_rtrancl)
      next
        case False
        then have "x \<in> set (last G)" using that(2) g by simp
        then show ?thesis using d(12)[OF lg(1)] h by simp
      qed
    next
      assume "g \<in> set G"
      then show ?thesis using d(12) that(2) by blast
    qed
  qed
  show "group_inv bd ?G ?tg (bod # qq @ [m]) s"
    unfolding group_inv_def
  proof (intro conjI allI impI ballI)
    show "?G \<noteq> []" by (rule c1)
    show "[] \<notin> set ?G" by (rule c2)
    show "distinct (concat ?G)" by (rule c3)
    show "set (concat ?G) \<subseteq> {0 ..< total_states bd}" by (rule c4)
    show "length ?tg = total_states bd" by (rule c5)
    show "\<And>k x. k < length ?G \<Longrightarrow> x \<in> set (?G ! k) \<Longrightarrow> ?tg ! x = int k" by (rule c6)
    show "\<And>x. x < total_states bd \<Longrightarrow> x \<notin> set (concat ?G) \<Longrightarrow> ?tg ! x = - 1" by (rule c7)
    show "distinct (s @ bod # qq @ [m])" by (rule c8)
    show "set s \<union> set (bod # qq @ [m]) = set (concat ?G)" by (rule c9)
    show "set (bod # qq @ [m]) \<subseteq> set (last ?G)" by (rule c10)
    show "\<And>k x. k < length ?G \<Longrightarrow> x \<in> set (?G ! k) \<Longrightarrow> x \<in> set s \<Longrightarrow>
            set (adj bd x) \<subseteq> set (?G ! k)" by (rule c11)
    show "\<And>g x. g \<in> set ?G \<Longrightarrow> x \<in> set g \<Longrightarrow> reachable bd (hd g) x" by (rule c12)
  qed
qed

lemma py_index_last: "G \<noteq> [] \<Longrightarrow> py_index (length G) (int (length G - 1)) = Some (length G - 1)"
  by (cases G) (simp_all add: py_index_def)

lemma for_members_inv:
  assumes ok: "bonds_ok bd"
  shows "group_inv bd G tg (bod # qq) s \<Longrightarrow> set ms \<subseteq> set (adj bd bod) \<Longrightarrow>
    gn = int (length G - 1) \<Longrightarrow>
    \<exists>G' tg' qq'. for_members s gn ms (G, tg, qq) = Inr (G', tg', qq') \<and>
       group_inv bd G' tg' (bod # qq') s \<and> length G' = length G \<and>
       set ms \<subseteq> set (last G') \<and> set (last G) \<subseteq> set (last G')"
proof (induction ms arbitrary: G tg qq)
  case Nil
  then show ?case by simp
next
  case (Cons m ms)
  note inv = Cons.prems(1)
  note gn = Cons.prems(3)
  define K where "K = length G - 1"
  have m: "m \<in> set (adj bd bod)" and ms: "set ms \<subseteq> set (adj bd bod)"
    using Cons.prems(2) by simp_all
  have ne: "G \<noteq> []" using group_invD(1)[OF inv] .
  have idx: "py_index (length G) gn = Some K"
    unfolding gn K_def using ne by (rule py_index_last)
  have lst: "G ! K = last G" unfolding K_def using ne by (simp add: last_conv_nth)
  show ?case
  proof (cases "m \<in> set (last G)")
    case True
    have "m \<in> set s \<or> m \<in> set qq" using inv_old_member[OF ok inv m True] .
    then have step: "for_members s gn (m # ms) (G, tg, qq) = for_members s gn ms (G, tg, qq)"
      using True by (auto simp: idx lst)
    obtain G' tg' qq' where r: "for_members s gn ms (G, tg, qq) = Inr (G', tg', qq')"
      "group_inv bd G' tg' (bod # qq') s" "length G' = length G"
      "set ms \<subseteq> set (last G')" "set (last G) \<subseteq> set (last G')"
      using Cons.IH[OF inv ms gn] by blast
    have "set (m # ms) \<subseteq> set (last G')" using r(4,5) True by auto
    then show ?thesis using step r by simp
  next
    case False
    let ?G = "G[K := last G @ [m]]"
    let ?tg = "tg[m := gn]"
    note a = inv_add_member[OF ok inv m False, folded K_def gn]
    have step: "for_members s gn (m # ms) (G, tg, qq) = for_members s gn ms (?G, ?tg, qq @ [m])"
      using False a(1,2,3) by (simp add: idx lst)
    have gn': "gn = int (length ?G - 1)" using gn by simp
    obtain G' tg' qq' where r: "for_members s gn ms (?G, ?tg, qq @ [m]) = Inr (G', tg', qq')"
      "group_inv bd G' tg' (bod # qq') s" "length G' = length ?G"
      "set ms \<subseteq> set (last G')" "set (last ?G) \<subseteq> set (last G')"
      using Cons.IH[OF a(4) ms gn'] by blast
    have l: "last ?G = last G @ [m]" unfolding K_def using ne by (rule last_upd_last)
    have "set (m # ms) \<subseteq> set (last G')" "set (last G) \<subseteq> set (last G')"
      using r(4,5) unfolding l by auto
    then show ?thesis using step r(1,2,3) by simp
  qed
qed

lemma inv_after_body:
  assumes inv: "group_inv bd G tg (bod # q) s" and adjs: "set (adj bd bod) \<subseteq> set (last G)"
  shows "group_inv bd G tg q (s @ [bod])"
proof -
  note d = group_invD[OF inv]
  have K: "length G - 1 < length G" "last G = G ! (length G - 1)"
    using d(1) by (simp_all add: last_conv_nth)
  have bodK: "bod \<in> set (G ! (length G - 1))" using d(10) K(2) by simp
  have c8: "distinct ((s @ [bod]) @ q)" using d(8) by simp
  have c9: "set (s @ [bod]) \<union> set q = set (concat G)" using d(9) by auto
  have c10: "set q \<subseteq> set (last G)" using d(10) by simp
  have c11: "set (adj bd x) \<subseteq> set (G ! k)"
    if "k < length G" "x \<in> set (G ! k)" "x \<in> set (s @ [bod])" for k x
  proof (cases "x = bod")
    case True
    have "k = length G - 1" using same_group[OF inv that(1) _ K(1) bodK] that(2) True by simp
    then show ?thesis using adjs K(2) True by simp
  next
    case False
    then have "x \<in> set s" using that(3) by simp
    then show ?thesis using d(11)[OF that(1,2)] by simp
  qed
  show ?thesis
    unfolding group_inv_def
  proof (intro conjI allI impI ballI)
    show "G \<noteq> []" by (rule d(1))
    show "[] \<notin> set G" by (rule d(2))
    show "distinct (concat G)" by (rule d(3))
    show "set (concat G) \<subseteq> {0 ..< total_states bd}" by (rule d(4))
    show "length tg = total_states bd" by (rule d(5))
    show "\<And>k x. k < length G \<Longrightarrow> x \<in> set (G ! k) \<Longrightarrow> tg ! x = int k" by (rule d(6))
    show "\<And>x. x < total_states bd \<Longrightarrow> x \<notin> set (concat G) \<Longrightarrow> tg ! x = - 1" by (rule d(7))
    show "distinct ((s @ [bod]) @ q)" by (rule c8)
    show "set (s @ [bod]) \<union> set q = set (concat G)" by (rule c9)
    show "set q \<subseteq> set (last G)" by (rule c10)
    show "\<And>k x. k < length G \<Longrightarrow> x \<in> set (G ! k) \<Longrightarrow> x \<in> set (s @ [bod]) \<Longrightarrow>
            set (adj bd x) \<subseteq> set (G ! k)" by (rule c11)
    show "\<And>g x. g \<in> set G \<Longrightarrow> x \<in> set g \<Longrightarrow> reachable bd (hd g) x" by (rule d(12))
  qed
qed

lemma inv_new_group:
  assumes inv: "group_inv bd G tg [] s" and u: "first_unassigned tg = Some u"
  shows "group_inv bd (G @ [[u]]) (tg[u := int (length (G @ [[u]])) - 1]) [u] s"
proof -
  note d = group_invD[OF inv]
  let ?G = "G @ [[u]]"
  let ?tg = "tg[u := int (length (G @ [[u]])) - 1]"
  have ul: "u < length tg" and um: "tg ! u = - 1" using first_unassigned_Some[OF u] by simp_all
  have uc: "u \<notin> set (concat G)"
  proof
    assume "u \<in> set (concat G)"
    then have "\<exists>k < length G. u \<in> set (G ! k)" by (rule in_concatD)
    then obtain k where "k < length G" "u \<in> set (G ! k)" by blast
    then have "tg ! u = int k" by (rule d(6))
    then show False using um by simp
  qed
  have us: "u \<notin> set s" using uc d(9) by auto
  have val: "int (length (G @ [[u]])) - 1 = int (length G)" by simp
  have c3: "distinct (concat ?G)" using d(3) uc by simp
  have c4: "set (concat ?G) \<subseteq> {0 ..< total_states bd}" using d(4) ul d(5) by simp
  have c5: "length ?tg = total_states bd" using d(5) by simp
  have c6: "?tg ! x = int k" if "k < length ?G" "x \<in> set (?G ! k)" for k x
  proof (cases "k < length G")
    case True
    then have xk: "x \<in> set (G ! k)" using that(2) by (simp add: nth_append)
    then have "x \<in> set (concat G)" using True by (rule in_concatI[rotated])
    then have "x \<noteq> u" using uc by auto
    then show ?thesis using d(6)[OF True xk] by simp
  next
    case False
    then have k: "k = length G" using that(1) by simp
    then have "x = u" using that(2) by simp
    then show ?thesis using k ul by simp
  qed
  have c7: "?tg ! x = - 1" if "x < total_states bd" "x \<notin> set (concat ?G)" for x
    using that d(7)[of x] by simp
  have c8: "distinct (s @ [u])" using d(8) us by simp
  have c9: "set s \<union> set [u] = set (concat ?G)" using d(9) by auto
  have c11: "set (adj bd x) \<subseteq> set (?G ! k)" if "k < length ?G" "x \<in> set (?G ! k)" "x \<in> set s" for k x
  proof (cases "k < length G")
    case True
    then have xk: "x \<in> set (G ! k)" using that(2) by (simp add: nth_append)
    show ?thesis using d(11)[OF True xk that(3)] True by (simp add: nth_append)
  next
    case False
    then have "k = length G" using that(1) by simp
    then have "x = u" using that(2) by simp
    then show ?thesis using that(3) us by simp
  qed
  have c12: "reachable bd (hd g) x" if "g \<in> set ?G" "x \<in> set g" for g x
  proof (cases "g = [u]")
    case True
    then show ?thesis using that(2) by (simp add: reachable_def)
  next
    case False
    then have "g \<in> set G" using that(1) by simp
    then show ?thesis using that(2) by (rule d(12))
  qed
  show ?thesis
    unfolding group_inv_def
  proof (intro conjI allI impI ballI)
    show "?G \<noteq> []" by simp
    show "[] \<notin> set ?G" using d(2) by simp
    show "distinct (concat ?G)" by (rule c3)
    show "set (concat ?G) \<subseteq> {0 ..< total_states bd}" by (rule c4)
    show "length ?tg = total_states bd" by (rule c5)
    show "\<And>k x. k < length ?G \<Longrightarrow> x \<in> set (?G ! k) \<Longrightarrow> ?tg ! x = int k" by (rule c6)
    show "\<And>x. x < total_states bd \<Longrightarrow> x \<notin> set (concat ?G) \<Longrightarrow> ?tg ! x = - 1" by (rule c7)
    show "distinct (s @ [u])" by (rule c8)
    show "set s \<union> set [u] = set (concat ?G)" by (rule c9)
    show "set [u] \<subseteq> set (last ?G)" by simp
    show "\<And>k x. k < length ?G \<Longrightarrow> x \<in> set (?G ! k) \<Longrightarrow> x \<in> set s \<Longrightarrow>
            set (adj bd x) \<subseteq> set (?G ! k)" by (rule c11)
    show "\<And>g x. g \<in> set ?G \<Longrightarrow> x \<in> set g \<Longrightarrow> reachable bd (hd g) x" by (rule c12)
  qed
qed

lemma searched_bound:
  assumes inv: "group_inv bd G tg q s"
  shows "length s + length q \<le> total_states bd"
proof -
  note d = group_invD[OF inv]
  have "length (s @ q) = card (set (s @ q))" using d(8) by (rule distinct_card[symmetric])
  also have "\<dots> \<le> card {0 ..< total_states bd}"
    using d(4,9) by (intro card_mono) auto
  finally show ?thesis by simp
qed

lemma unassigned_exists:
  assumes inv: "group_inv bd G tg [] s" and n: "length s \<noteq> total_states bd"
  shows "\<exists>u. first_unassigned tg = Some u"
proof -
  note d = group_invD[OF inv]
  have "length s < total_states bd" using searched_bound[OF inv] n by simp
  then have "card (set s) < card {0 ..< total_states bd}" using d(8) by (simp add: distinct_card)
  then have "\<not> {0 ..< total_states bd} \<subseteq> set s"
    by (metis List.finite_set card_mono not_less)
  then obtain x where x: "x < total_states bd" "x \<notin> set s" by (auto simp: subset_iff)
  then have "x \<notin> set (concat G)" using d(9) by simp
  then have "tg ! x = - 1" using d(7) x(1) by simp
  then show ?thesis using first_unassigned_ex[of x tg] x(1) d(5) by simp
qed

lemma groups_loop_total:
  assumes ok: "bonds_ok bd"
  shows "group_inv bd G tg q s \<Longrightarrow> q \<noteq> [] \<or> length s = total_states bd \<Longrightarrow>
    \<exists>G' tg' s'. groups_loop bd (total_states bd) (G, tg, q, s) = Some (Inr G') \<and>
       group_inv bd G' tg' [] s' \<and> length s' = total_states bd"
proof (induction "total_states bd - length s" arbitrary: G tg q s rule: less_induct)
  case less
  note inv = less.prems(1)
  show ?case
  proof (cases q)
    case Nil
    then have "groups_loop bd (total_states bd) (G, tg, q, s) = Some (Inr G)"
      by (subst groups_loop.simps) simp
    then show ?thesis using inv less.prems(2) Nil by blast
  next
    case (Cons bod qq)
    note inv' = inv[unfolded Cons]
    note d = group_invD[OF inv']
    have ne: "G \<noteq> []" by (rule d(1))
    have K: "length G - 1 < length G" "last G = G ! (length G - 1)"
      using ne by (simp_all add: last_conv_nth)
    have bodK: "bod \<in> set (G ! (length G - 1))" using d(10) K(2) by simp
    have bodc: "bod \<in> set (concat G)" using K(1) bodK by (rule in_concatI)
    have bodN: "bod < total_states bd" using bodc d(4) by auto
    have bodl: "bod < length tg" using bodN d(5) by simp
    have gn: "tg ! bod = int (length G - 1)" using d(6)[OF K(1) bodK] .
    have "bod \<in> fst ` set bd" using ok bodN unfolding bonds_ok_def by simp
    then obtain adj_list where al: "map_of bd bod = Some adj_list"
      by (cases "map_of bd bod") (simp_all add: map_of_eq_None_iff)
    have adj: "adj bd bod = adj_list" using al by (simp add: adj_def)
    obtain G1 tg1 q1 where f: "for_members s (tg ! bod) adj_list (G, tg, qq) = Inr (G1, tg1, q1)"
      and inv1: "group_inv bd G1 tg1 (bod # q1) s"
      and sub: "set adj_list \<subseteq> set (last G1)"
      using for_members_inv[OF ok inv' _ gn, of adj_list] adj by auto
    have inv2: "group_inv bd G1 tg1 q1 (s @ [bod])"
      using inv1 sub adj by (intro inv_after_body) simp_all
    have lt: "length s < total_states bd" using searched_bound[OF inv'] by simp
    then have meas: "total_states bd - length (s @ [bod]) < total_states bd - length s" by simp
    show ?thesis
    proof (cases "q1 = [] \<and> length (s @ [bod]) \<noteq> total_states bd")
      case True
      then have q1: "q1 = []" and n: "length (s @ [bod]) \<noteq> total_states bd" by simp_all
      obtain u where u: "first_unassigned tg1 = Some u"
        using unassigned_exists[OF inv2[unfolded q1] n] by blast
      let ?G = "G1 @ [[u]]"
      let ?tg = "tg1[u := int (length (G1 @ [[u]])) - 1]"
      have inv3: "group_inv bd ?G ?tg [u] (s @ [bod])"
        using inv2[unfolded q1] u by (rule inv_new_group)
      have step: "groups_loop bd (total_states bd) (G, tg, q, s) =
                  groups_loop bd (total_states bd) (?G, ?tg, [u], s @ [bod])"
        using Cons bodl al f q1 n u by (subst groups_loop.simps) simp
      show ?thesis
        unfolding step using less.hyps[OF meas inv3] by simp
    next
      case False
      have step: "groups_loop bd (total_states bd) (G, tg, q, s) =
                  groups_loop bd (total_states bd) (G1, tg1, q1, s @ [bod])"
        using Cons bodl al f False by (subst groups_loop.simps) auto
      have "q1 \<noteq> [] \<or> length (s @ [bod]) = total_states bd" using False by blast
      then show ?thesis
        unfolding step using less.hyps[OF meas inv2] by simp
    qed
  qed
qed

lemma initial_inv:
  assumes ok: "bonds_ok bd"
  shows "group_inv bd [[0]] ((replicate (total_states bd) (- 1))[0 := 0]) [0] []"
proof -
  have pos: "0 < total_states bd" using ok total_states_pos unfolding bonds_ok_def by blast
  show ?thesis
    unfolding group_inv_def using pos by (auto simp: reachable_def nth_list_update)
qed

lemma reachable_sym:
  assumes ok: "bonds_ok bd" and c: "reachable bd a b"
  shows "reachable bd b a"
proof -
  have "sym (bonds bd)" using bonds_sym[OF ok] by (auto intro: symI)
  then have "sym ((bonds bd)\<^sup>*)" by (rule sym_rtrancl)
  then show ?thesis using c unfolding reachable_def by (rule symD)
qed

lemma reachable_stays:
  assumes inv: "group_inv bd G tg [] s" and k: "k < length G" and a: "a \<in> set (G ! k)"
    and c: "reachable bd a b"
  shows "b \<in> set (G ! k)"
  using c unfolding reachable_def
proof (induction rule: rtrancl_induct)
  case base
  show ?case by (rule a)
next
  case (step y z)
  note d = group_invD[OF inv]
  have "y \<in> set (concat G)" using k step.IH by (rule in_concatI)
  then have "y \<in> set s" using d(9) by simp
  then have "set (adj bd y) \<subseteq> set (G ! k)" using d(11)[OF k step.IH] by simp
  then show ?case using step.hyps(2) by (auto simp: bonds_def)
qed

text \<open>
  Claim C2: for every bond dictionary with the keys \<open>0, \<dots>, N - 1\<close> (\<open>N \<ge> 1\<close>) and a
  symmetric adjacency, \<^verbatim>\<open>get_groups\<close> returns a partition of the ids: the groups cover all
  ids, are pairwise disjoint, two ids of one group are connected by bonds, and two ids of
  different groups are not. This needs one more condition, that no body is bonded to
  itself (a self-bond puts the body into the queue a second time, and the count of
  searched bodies then ends the loop too early). Under it \<^verbatim>\<open>get_groups\<close> returns, and what it
  returns is such a partition, with no id twice.
\<close>

theorem get_groups_partition:
  assumes "bd \<noteq> []" and "fst ` set bd = {0 ..< total_states bd}"
    and "\<forall>a < total_states bd. \<forall>b \<in> set (adj bd a). a \<in> set (adj bd b)"
    and "\<forall>a < total_states bd. a \<notin> set (adj bd a)"
  shows "\<exists>G. get_groups bd = Some (Inr G) \<and>
           (\<Union>g \<in> set G. set g) = {0 ..< total_states bd} \<and>
           distinct (concat G) \<and>
           (\<forall>g \<in> set G. \<forall>a \<in> set g. \<forall>b \<in> set g. reachable bd a b) \<and>
           (\<forall>i < length G. \<forall>j < length G. i \<noteq> j \<longrightarrow>
              (\<forall>a \<in> set (G ! i). \<forall>b \<in> set (G ! j). \<not> reachable bd a b))"
proof -
  have ok: "bonds_ok bd" using assms unfolding bonds_ok_def by blast
  have pos: "total_states bd \<noteq> 0" using assms(1) total_states_pos by simp
  obtain G tg s where r: "groups_loop bd (total_states bd)
        ([[0]], (replicate (total_states bd) (- 1))[0 := 0], [0], []) = Some (Inr G)"
    and inv: "group_inv bd G tg [] s" and len: "length s = total_states bd"
    using groups_loop_total[OF ok initial_inv[OF ok]] by blast
  note d = group_invD[OF inv]
  have g: "get_groups bd = Some (Inr G)" using r pos by (simp add: get_groups_def Let_def)
  have "card (set s) = card {0 ..< total_states bd}" using d(8) len by (simp add: distinct_card)
  moreover have "set s \<subseteq> {0 ..< total_states bd}" using d(4,9) by simp
  ultimately have "set s = {0 ..< total_states bd}" by (intro card_subset_eq) simp_all
  then have u: "(\<Union>g \<in> set G. set g) = {0 ..< total_states bd}" using d(9) by simp
  have c: "reachable bd a b" if "g \<in> set G" "a \<in> set g" "b \<in> set g" for g a b
  proof -
    have "reachable bd a (hd g)" using reachable_sym[OF ok d(12)[OF that(1,2)]] .
    moreover have "reachable bd (hd g) b" using d(12)[OF that(1,3)] .
    ultimately show ?thesis unfolding reachable_def by (rule rtrancl_trans)
  qed
  have n: "\<not> reachable bd a b"
    if "i < length G" "j < length G" "i \<noteq> j" "a \<in> set (G ! i)" "b \<in> set (G ! j)" for i j a b
  proof
    assume "reachable bd a b"
    then have "b \<in> set (G ! i)" using reachable_stays[OF inv that(1,4)] by simp
    then have "i = j" using same_group[OF inv that(1) _ that(2,5)] by simp
    then show False using that(3) by simp
  qed
  show ?thesis
  proof (intro exI conjI ballI allI impI)
    show "get_groups bd = Some (Inr G)" by (rule g)
    show "(\<Union>g \<in> set G. set g) = {0 ..< total_states bd}" by (rule u)
    show "distinct (concat G)" by (rule d(3))
    show "\<And>g a b. g \<in> set G \<Longrightarrow> a \<in> set g \<Longrightarrow> b \<in> set g \<Longrightarrow> reachable bd a b"
      by (rule c)
    show "\<And>i j a b. i < length G \<Longrightarrow> j < length G \<Longrightarrow> i \<noteq> j \<Longrightarrow>
            a \<in> set (G ! i) \<Longrightarrow> b \<in> set (G ! j) \<Longrightarrow> \<not> reachable bd a b"
      by (rule n)
  qed
qed

lemma example_bonds_groups: "get_groups example_bonds = Some (Inr [[0, 1], [2]])"
  by code_simp

lemma example_bonds_size: "total_states example_bonds = 3"
  by (simp add: total_states_def example_bonds_def)

lemma example_bonds_adj:
  "adj example_bonds 0 = [1]" "adj example_bonds 1 = [0]" "adj example_bonds 2 = []"
  by (simp_all add: adj_def example_bonds_def)

text \<open>The bodies 0 and 1 bonded and body 2 alone: the groups \<open>[0, 1]\<close> and \<open>[2]\<close>.\<close>

theorem get_groups_partition_witness:
  "get_groups example_bonds = Some (Inr [[0, 1], [2]]) \<and>
   reachable example_bonds 0 1 \<and> \<not> reachable example_bonds 1 2"
proof -
  have h1: "example_bonds \<noteq> []" by (simp add: example_bonds_def)
  have h2: "fst ` set example_bonds = {0 ..< total_states example_bonds}"
    unfolding example_bonds_size by (auto simp: example_bonds_def)
  have lt3: "a < 3 \<longleftrightarrow> a = 0 \<or> a = 1 \<or> a = 2" for a :: nat by auto
  have h3: "\<forall>a < total_states example_bonds. \<forall>b \<in> set (adj example_bonds a).
              a \<in> set (adj example_bonds b)"
    unfolding example_bonds_size lt3 using example_bonds_adj by auto
  have h4: "\<forall>a < total_states example_bonds. a \<notin> set (adj example_bonds a)"
    unfolding example_bonds_size lt3 using example_bonds_adj by auto
  from get_groups_partition[OF h1 h2 h3 h4]
  obtain G where all: "get_groups example_bonds = Some (Inr G) \<and>
           (\<Union>g \<in> set G. set g) = {0 ..< total_states example_bonds} \<and>
           distinct (concat G) \<and>
           (\<forall>g \<in> set G. \<forall>a \<in> set g. \<forall>b \<in> set g. reachable example_bonds a b) \<and>
           (\<forall>i < length G. \<forall>j < length G. i \<noteq> j \<longrightarrow>
              (\<forall>a \<in> set (G ! i). \<forall>b \<in> set (G ! j). \<not> reachable example_bonds a b))" ..
  have g: "get_groups example_bonds = Some (Inr G)" using all by (rule conjunct1)
  have G: "G = [[0, 1], [2]]" using g example_bonds_groups by simp
  have c: "\<forall>g \<in> set G. \<forall>a \<in> set g. \<forall>b \<in> set g. reachable example_bonds a b"
    using all by (elim conjE)
  have n: "\<forall>i < length G. \<forall>j < length G. i \<noteq> j \<longrightarrow>
              (\<forall>a \<in> set (G ! i). \<forall>b \<in> set (G ! j). \<not> reachable example_bonds a b)"
    using all by (elim conjE)
  have m: "[0, 1] \<in> set G" "(0::nat) \<in> set [0, 1]" "(1::nat) \<in> set [0, 1]"
    by (simp_all add: G)
  have c01: "reachable example_bonds 0 1" using c[rule_format, OF m] .
  have i: "(0::nat) < length G" "(1::nat) < length G" "(0::nat) \<noteq> 1"
    "(1::nat) \<in> set (G ! 0)" "(2::nat) \<in> set (G ! 1)" by (simp_all add: G)
  have n12: "\<not> reachable example_bonds 1 2"
    using n[rule_format, OF i] .
  show ?thesis using example_bonds_groups c01 n12 by (intro conjI)
qed

text \<open>
  Against claim C2 as stated: the dictionary \<^verbatim>\<open>{0: [0], 1: []}\<close> has the keys 0 and 1 and a
  symmetric adjacency, and \<^verbatim>\<open>get_groups\<close> returns the single group \<open>[0]\<close>, which misses body 1.
\<close>

theorem get_groups_self_bond_counterexample:
  "fst ` set self_bond = {0 ..< total_states self_bond} \<and>
   adj self_bond 0 = [0] \<and> adj self_bond 1 = [] \<and>
   get_groups self_bond = Some (Inr [[0]]) \<and>
   (\<Union>g \<in> set [[0]]. set g) \<noteq> {0 ..< total_states self_bond}"
proof -
  have t: "total_states self_bond = 2" by (simp add: total_states_def self_bond_def)
  have g: "get_groups self_bond = Some (Inr [[0]])" by code_simp
  have u: "(\<Union>g \<in> set [[0::nat]]. set g) \<noteq> {0 ..< 2}"
  proof
    assume "(\<Union>g \<in> set [[0::nat]]. set g) = {0 ..< 2}"
    moreover have "(1::nat) \<in> {0 ..< 2}" by simp
    ultimately have "(1::nat) \<in> (\<Union>g \<in> set [[0::nat]]. set g)" by (rule ssubst)
    then show False by simp
  qed
  have k: "fst ` set self_bond = {0 ..< 2}" by (auto simp: self_bond_def)
  have a: "adj self_bond 0 = [0]" "adj self_bond 1 = []" by (simp_all add: self_bond_def adj_def)
  show ?thesis unfolding t using k a g u by (intro conjI)
qed




end
